theory Spec2Isabelle
  imports Complex_Main "HOL-Library.AList"
begin

section \<open>Data model of DataPrepper.py\<close>

text \<open>
  The class \<open>DataPrepper\<close> works on Python dictionaries whose iteration order is the
  insertion order. A dictionary is modelled as an association list with pairwise distinct
  keys: \<open>map fst d\<close> is \<open>d.keys()\<close>, \<open>map_of d k\<close> is the lookup \<open>d[k]\<close> (\<open>None\<close> where
  Python raises \<open>KeyError\<close>) and \<open>AList.update k v d\<close> is the assignment \<open>d[k] = v\<close>, which
  overwrites in place when the key is present and appends a new entry otherwise.

  Tokens, document names, class names and file paths are Python strings. Numbers of
  documents are Python's unbounded integers (\<open>nat\<close> for lengths, \<open>int\<close> for the culling
  bounds a caller passes). The weights computed with \<open>math.log\<close> are modelled as real
  numbers and \<open>math.log\<close> as the natural logarithm \<open>ln\<close>, that is, rounding of the
  floating-point operations is not part of the model.
\<close>

type_synonym token = string
type_synonym doc_name = string
type_synonym class_name = string
type_synonym path = string

text \<open>The document-frequency map: token to the list of names of documents containing it.\<close>
type_synonym df_map = "(token \<times> doc_name list) list"

text \<open>
  \<open>dict_class_documents\<close> before tokenization (\<open>doc_name : [text, class_name]\<close>) and after
  it (\<open>doc_name : [tokens, class_name]\<close>); \<open>tokenize_dataset\<close> overwrites component 0 of each
  value.
\<close>
type_synonym raw_dataset = "(doc_name \<times> (string \<times> class_name)) list"
type_synonym dataset = "(doc_name \<times> (token list \<times> class_name)) list"

text \<open>The exceptions the modelled code can raise.\<close>
datatype error =
  ZeroDivisionError | KeyError | ValueError | IndexError | FileNotFoundError | TypeError

section \<open>The progress bar\<close>

text \<open>
  \<open>print_loading_bar(chunk, N)\<close> starts with \<open>percentage = (chunk / N) * 100\<close>. Python's
  true division raises \<open>ZeroDivisionError\<close> when \<open>N\<close> is 0; for every other \<open>N\<close> the
  function only formats and prints (the string of a non-negative float has at least three
  characters, so the index \<open>[2]\<close> is in range). Printing is not modelled.
\<close>
definition print_loading_bar :: "nat \<Rightarrow> nat \<Rightarrow> error + unit" where
  "print_loading_bar chunk N = (if N = 0 then Inl ZeroDivisionError else Inr ())"

section \<open>Vocabulary culling\<close>

text \<open>
  \<open>cull_doc_freq\<close>: the loop over \<open>doc_freq_map.keys()\<close>, with the new dictionary
  \<open>culled_df_map\<close> as the loop state.
\<close>
fun cull_loop :: "df_map \<Rightarrow> int \<Rightarrow> int \<Rightarrow> token list \<Rightarrow> df_map \<Rightarrow> error + df_map" where
  "cull_loop doc_freq_map low_num_docs high_num_docs [] culled_df_map = Inr culled_df_map"
| "cull_loop doc_freq_map low_num_docs high_num_docs (word # ws) culled_df_map =
     (case map_of doc_freq_map word of
        None \<Rightarrow> Inl KeyError
      | Some ds \<Rightarrow>
          (let num_occurrences = int (length ds) in
           if num_occurrences < high_num_docs \<and> num_occurrences > low_num_docs
           then cull_loop doc_freq_map low_num_docs high_num_docs ws
                  (AList.update word ds culled_df_map)
           else cull_loop doc_freq_map low_num_docs high_num_docs ws culled_df_map))"

definition cull_doc_freq :: "df_map \<Rightarrow> int \<Rightarrow> int \<Rightarrow> error + df_map" where
  "cull_doc_freq doc_freq_map low_num_docs high_num_docs =
     cull_loop doc_freq_map low_num_docs high_num_docs (map fst doc_freq_map) []"

text \<open>The entries a strict range filter keeps.\<close>
definition in_band :: "int \<Rightarrow> int \<Rightarrow> token \<times> doc_name list \<Rightarrow> bool" where
  "in_band low high e = (low < int (length (snd e)) \<and> int (length (snd e)) < high)"

section \<open>Tokenization and the document-frequency map\<close>

text \<open>
  The inner loop of \<open>tokenize_dataset\<close> over the tokens of one document. Its state is the
  list \<open>tokens_processed_before\<close> and the dictionary \<open>doc_freq_map\<close>. The test
  \<open>token not in doc_freq_map.keys()\<close> is the lookup returning \<open>None\<close>; in the other branch
  \<open>doc_freq_map[token].append(doc_name)\<close> extends the list stored under the token.
\<close>
fun record_tokens :: "doc_name \<Rightarrow> token list \<Rightarrow> token list \<Rightarrow> df_map \<Rightarrow> df_map" where
  "record_tokens doc_name [] tokens_processed_before doc_freq_map = doc_freq_map"
| "record_tokens doc_name (token # rest) tokens_processed_before doc_freq_map =
     (if token \<notin> set tokens_processed_before
      then record_tokens doc_name rest (tokens_processed_before @ [token])
             (case map_of doc_freq_map token of
                None \<Rightarrow> AList.update token [doc_name] doc_freq_map
              | Some ds \<Rightarrow> AList.update token (ds @ [doc_name]) doc_freq_map)
      else record_tokens doc_name rest tokens_processed_before doc_freq_map)"

text \<open>
  The loop of \<open>tokenize_dataset\<close> over the documents, \<open>i\<close> being the counter of
  \<open>enumerate\<close>. Each key of the dictionary is visited once, in insertion order, and the
  text stored under it is replaced by its tokens: \<open>tokenized\<close> collects the entries already
  rewritten. The tokenizer is the method \<open>Tokenizer.tokenize\<close> of a module that is not part
  of the file; it is a parameter.
\<close>
fun tokenize_loop ::
  "(string \<Rightarrow> token list) \<Rightarrow> nat \<Rightarrow> nat \<Rightarrow> raw_dataset \<Rightarrow> dataset \<Rightarrow> df_map
     \<Rightarrow> error + dataset \<times> df_map" where
  "tokenize_loop tokenize N_DOCS i [] tokenized doc_freq_map = Inr (tokenized, doc_freq_map)"
| "tokenize_loop tokenize N_DOCS i ((doc_name, (text, class_name)) # rest) tokenized doc_freq_map =
     (let tokens = tokenize text;
          doc_freq_map' = record_tokens doc_name tokens [] doc_freq_map
      in case print_loading_bar (i + 1) N_DOCS of
           Inl e \<Rightarrow> Inl e
         | Inr _ \<Rightarrow> tokenize_loop tokenize N_DOCS (i + 1) rest
                      (tokenized @ [(doc_name, (tokens, class_name))]) doc_freq_map')"

definition tokenize_dataset ::
  "(string \<Rightarrow> token list) \<Rightarrow> raw_dataset \<Rightarrow> error + dataset \<times> df_map" where
  "tokenize_dataset tokenize dict_class_documents =
     (let N_DOCS = length dict_class_documents
      in case print_loading_bar 0 N_DOCS of
           Inl e \<Rightarrow> Inl e
         | Inr _ \<Rightarrow> tokenize_loop tokenize N_DOCS 0 dict_class_documents [] [])"

section \<open>TF-IDF vectors\<close>

text \<open>\<open>vocab.index(token)\<close>: the position of the first occurrence, \<open>ValueError\<close> if absent.\<close>
fun index_of :: "token list \<Rightarrow> token \<Rightarrow> error + nat" where
  "index_of [] token = Inl ValueError"
| "index_of (v # vs) token =
     (if v = token then Inr 0
      else (case index_of vs token of Inl e \<Rightarrow> Inl e | Inr i \<Rightarrow> Inr (Suc i)))"

text \<open>\<open>math.log(x)\<close> raises \<open>ValueError\<close> unless \<open>x\<close> is positive.\<close>
definition py_log :: "real \<Rightarrow> error + real" where
  "py_log x = (if x \<le> 0 then Inl ValueError else Inr (ln x))"

text \<open>
  \<open>log(N_DOCNAMES / len(m[token]))\<close> for a document-frequency map \<open>m\<close>: the lookup raises
  \<open>KeyError\<close> for a missing token, the division \<open>ZeroDivisionError\<close> for an empty list.
  The file is Python 3 (it calls \<open>print\<close> with \<open>end=\<close>), so \<open>/\<close> is true division.
\<close>
definition idf_from :: "nat \<Rightarrow> df_map \<Rightarrow> token \<Rightarrow> error + real" where
  "idf_from N_DOCNAMES m token =
     (case map_of m token of
        None \<Rightarrow> Inl KeyError
      | Some ds \<Rightarrow>
          if length ds = 0 then Inl ZeroDivisionError
          else py_log (real N_DOCNAMES / real (length ds)))"

text \<open>
  Lines 128 to 131: \<open>if test_mode and doc_freq_map_testset\<close>. The optional argument is
  \<open>None\<close> by default, and Python's truth value of a dictionary is false for \<open>None\<close> and
  for the empty dictionary.
\<close>
fun log_idf :: "nat \<Rightarrow> df_map \<Rightarrow> df_map option \<Rightarrow> bool \<Rightarrow> token \<Rightarrow> error + real" where
  "log_idf N_DOCNAMES doc_freq_map (Some doc_freq_map_testset) True token =
     (if doc_freq_map_testset \<noteq> [] then idf_from N_DOCNAMES doc_freq_map_testset token
      else idf_from N_DOCNAMES doc_freq_map token)"
| "log_idf N_DOCNAMES doc_freq_map None True token = idf_from N_DOCNAMES doc_freq_map token"
| "log_idf N_DOCNAMES doc_freq_map doc_freq_map_testset False token =
     idf_from N_DOCNAMES doc_freq_map token"

text \<open>\<open>log_tf = (1 + log(tf)) if tf > 0 else 0.0\<close> with \<open>tf = doc.count(token)\<close>.\<close>
definition log_tf :: "token list \<Rightarrow> token \<Rightarrow> real" where
  "log_tf doc token =
     (let tf = count_list doc token in if tf > 0 then 1 + ln (real tf) else 0)"

text \<open>
  The loop \<open>for token in doc\<close>; its state is \<open>f_vector\<close>. The fourth argument is the part
  of \<open>doc\<close> still to be visited, the second the whole document (for \<open>doc.count\<close>).
\<close>
fun weigh_tokens ::
  "token list \<Rightarrow> token list \<Rightarrow> nat \<Rightarrow> df_map \<Rightarrow> df_map option \<Rightarrow> bool \<Rightarrow> token list
     \<Rightarrow> real list \<Rightarrow> error + real list" where
  "weigh_tokens vocab doc N_DOCNAMES doc_freq_map testset test_mode [] f_vector = Inr f_vector"
| "weigh_tokens vocab doc N_DOCNAMES doc_freq_map testset test_mode (token # rest) f_vector =
     (if token \<in> set vocab
      then (case log_idf N_DOCNAMES doc_freq_map testset test_mode token of
              Inl e \<Rightarrow> Inl e
            | Inr li \<Rightarrow>
                (let w = log_tf doc token * li
                 in case index_of vocab token of
                      Inl e \<Rightarrow> Inl e
                    | Inr i \<Rightarrow> weigh_tokens vocab doc N_DOCNAMES doc_freq_map testset test_mode
                                 rest (f_vector[i := w])))
      else weigh_tokens vocab doc N_DOCNAMES doc_freq_map testset test_mode rest f_vector)"

text \<open>
  The body of the loop over the documents up to \<open>f_vectors_classname.append\<close>, and the
  loop itself. As in \<open>tokenize_dataset\<close>, iterating over the keys and reading
  \<open>dict_class_documents[doc_name]\<close> visits the entries of the dictionary in order.
\<close>
definition doc_vector ::
  "token list \<Rightarrow> nat \<Rightarrow> df_map \<Rightarrow> df_map option \<Rightarrow> bool \<Rightarrow> token list \<Rightarrow> error + real list" where
  "doc_vector vocab N_DOCNAMES doc_freq_map testset test_mode doc =
     weigh_tokens vocab doc N_DOCNAMES doc_freq_map testset test_mode doc
       (replicate (length vocab) 0)"

fun vectorize_loop ::
  "token list \<Rightarrow> nat \<Rightarrow> df_map \<Rightarrow> df_map option \<Rightarrow> bool \<Rightarrow> nat \<Rightarrow> dataset
     \<Rightarrow> (real list \<times> class_name) list \<Rightarrow> error + (real list \<times> class_name) list" where
  "vectorize_loop vocab N_DOCNAMES doc_freq_map testset test_mode i [] f_vectors_classname =
     Inr f_vectors_classname"
| "vectorize_loop vocab N_DOCNAMES doc_freq_map testset test_mode i
     ((doc_name, (doc, class_name)) # rest) f_vectors_classname =
     (case doc_vector vocab N_DOCNAMES doc_freq_map testset test_mode doc of
        Inl e \<Rightarrow> Inl e
      | Inr f_vector \<Rightarrow>
          (case print_loading_bar (i + 1) N_DOCNAMES of
             Inl e \<Rightarrow> Inl e
           | Inr _ \<Rightarrow> vectorize_loop vocab N_DOCNAMES doc_freq_map testset test_mode (i + 1) rest
                        (f_vectors_classname @ [(f_vector, class_name)])))"

definition setup_tfidf_vectors ::
  "dataset \<Rightarrow> df_map \<Rightarrow> df_map option \<Rightarrow> bool \<Rightarrow> error + (real list \<times> class_name) list" where
  "setup_tfidf_vectors dict_class_documents doc_freq_map doc_freq_map_testset test_mode =
     (let vocab = map fst doc_freq_map;
          N_DOCNAMES = length dict_class_documents
      in case print_loading_bar 0 N_DOCNAMES of
           Inl e \<Rightarrow> Inl e
         | Inr _ \<Rightarrow> vectorize_loop vocab N_DOCNAMES doc_freq_map doc_freq_map_testset test_mode
                      0 dict_class_documents [])"

section \<open>Reading the documents and the two pipelines\<close>

text \<open>
  \<open>sample_texts\<close> and \<open>sample_texts_for_test\<close> fill a dictionary from \<open>self.fpc\<close>, the list
  of manifest entries. The file system is a parameter: \<open>read_file p\<close> is the content of the
  file at \<open>p\<close>, \<open>None\<close> when \<open>open\<close> fails.
\<close>
fun sample_texts ::
  "(path \<Rightarrow> string option) \<Rightarrow> (doc_name \<times> path \<times> class_name) list \<Rightarrow> raw_dataset
     \<Rightarrow> error + raw_dataset" where
  "sample_texts read_file [] result = Inr result"
| "sample_texts read_file ((doc_name, path_to_doc, class_name) # fpc) result =
     (case read_file path_to_doc of
        None \<Rightarrow> Inl FileNotFoundError
      | Some text \<Rightarrow>
          sample_texts read_file fpc (AList.update doc_name (text, class_name) result))"

fun sample_texts_for_test ::
  "(path \<Rightarrow> string option) \<Rightarrow> (doc_name \<times> path) list \<Rightarrow> raw_dataset \<Rightarrow> error + raw_dataset" where
  "sample_texts_for_test read_file [] result = Inr result"
| "sample_texts_for_test read_file ((doc_name, path_to_doc) # fpc) result =
     (case read_file path_to_doc of
        None \<Rightarrow> Inl FileNotFoundError
      | Some text \<Rightarrow>
          sample_texts_for_test read_file fpc (AList.update doc_name (text, path_to_doc) result))"

text \<open>\<open>run\<close>, the training pipeline, returning \<open>[feature_vectors_class, doc_freq]\<close>.\<close>
definition run ::
  "(string \<Rightarrow> token list) \<Rightarrow> (path \<Rightarrow> string option) \<Rightarrow> (doc_name \<times> path \<times> class_name) list
     \<Rightarrow> error + (real list \<times> class_name) list \<times> df_map" where
  "run tokenize read_file fpc =
     (case sample_texts read_file fpc [] of
        Inl e \<Rightarrow> Inl e
      | Inr dataset \<Rightarrow>
          (case tokenize_dataset tokenize dataset of
             Inl e \<Rightarrow> Inl e
           | Inr (docs, doc_freq) \<Rightarrow>
               (case cull_doc_freq doc_freq 50 (int (length (map fst doc_freq))) of
                  Inl e \<Rightarrow> Inl e
                | Inr doc_freq' \<Rightarrow>
                    (case setup_tfidf_vectors docs doc_freq' None False of
                       Inl e \<Rightarrow> Inl e
                     | Inr feature_vectors_class \<Rightarrow> Inr (feature_vectors_class, doc_freq')))))"

text \<open>
  \<open>run_test\<close>, the test pipeline. After the vectors are built it prints the elements 0, 20
  and 45 of the result, each of which raises \<open>IndexError\<close> on a shorter list.
\<close>
definition run_test ::
  "(string \<Rightarrow> token list) \<Rightarrow> (path \<Rightarrow> string option) \<Rightarrow> (doc_name \<times> path) list \<Rightarrow> df_map
     \<Rightarrow> error + (real list \<times> class_name) list" where
  "run_test tokenize read_file fpc doc_freq =
     (case sample_texts_for_test read_file fpc [] of
        Inl e \<Rightarrow> Inl e
      | Inr dataset_filepath \<Rightarrow>
          (case tokenize_dataset tokenize dataset_filepath of
             Inl e \<Rightarrow> Inl e
           | Inr (docs, doc_freq_testset) \<Rightarrow>
               (case setup_tfidf_vectors docs doc_freq (Some doc_freq_testset) True of
                  Inl e \<Rightarrow> Inl e
                | Inr f_vectors_filepath \<Rightarrow>
                    if \<not> 0 < length f_vectors_filepath then Inl IndexError
                    else if \<not> 20 < length f_vectors_filepath then Inl IndexError
                    else if \<not> 45 < length f_vectors_filepath then Inl IndexError
                    else Inr f_vectors_filepath)))"

section \<open>Culling with object identity\<close>

text \<open>
  Whether \<open>cull_doc_freq\<close> leaves its argument alone is a question about objects, so the
  function is modelled a second time over a store. An object is a list of document names
  or a dictionary from tokens to references; a store is the list of the objects allocated
  so far, a reference is a position in it, and a new object is appended. A reference that
  does not lead to an object of the expected kind gives \<open>TypeError\<close>.
\<close>
type_synonym ref = nat

datatype pyobj = PyList "doc_name list" | PyDict "(token \<times> ref) list"

type_synonym heap = "pyobj list"

definition get_dict :: "heap \<Rightarrow> ref \<Rightarrow> error + (token \<times> ref) list" where
  "get_dict h r =
     (if r < length h
      then (case h ! r of PyDict es \<Rightarrow> Inr es | PyList ds \<Rightarrow> Inl TypeError)
      else Inl TypeError)"

definition get_list :: "heap \<Rightarrow> ref \<Rightarrow> error + doc_name list" where
  "get_list h r =
     (if r < length h
      then (case h ! r of PyList ds \<Rightarrow> Inr ds | PyDict es \<Rightarrow> Inl TypeError)
      else Inl TypeError)"

text \<open>
  The loop of \<open>cull_doc_freq\<close>: \<open>doc_freq_map\<close> and \<open>culled_df_map\<close> are references, and
  \<open>culled_df_map[word] = doc_freq_map[word]\<close> stores in the new dictionary the reference
  found in the old one, so both dictionaries share the list.
\<close>
fun cull_loop_heap :: "ref \<Rightarrow> ref \<Rightarrow> int \<Rightarrow> int \<Rightarrow> token list \<Rightarrow> heap \<Rightarrow> error + heap" where
  "cull_loop_heap doc_freq_map culled_df_map low_num_docs high_num_docs [] h = Inr h"
| "cull_loop_heap doc_freq_map culled_df_map low_num_docs high_num_docs (word # ws) h =
     (case get_dict h doc_freq_map of
        Inl e \<Rightarrow> Inl e
      | Inr es \<Rightarrow>
          (case map_of es word of
             None \<Rightarrow> Inl KeyError
           | Some r \<Rightarrow>
               (case get_list h r of
                  Inl e \<Rightarrow> Inl e
                | Inr ds \<Rightarrow>
                    (let num_occurrences = int (length ds) in
                     if num_occurrences < high_num_docs \<and> num_occurrences > low_num_docs
                     then (case get_dict h culled_df_map of
                             Inl e \<Rightarrow> Inl e
                           | Inr ces \<Rightarrow>
                               cull_loop_heap doc_freq_map culled_df_map low_num_docs
                                 high_num_docs ws
                                 (h[culled_df_map := PyDict (AList.update word r ces)]))
                     else cull_loop_heap doc_freq_map culled_df_map low_num_docs
                            high_num_docs ws h))))"

text \<open>
  \<open>culled_df_map = {}\<close> allocates the new dictionary; the keys iterated over are those of
  the argument when the loop starts; the new reference is returned.
\<close>
definition cull_doc_freq_heap :: "heap \<Rightarrow> ref \<Rightarrow> int \<Rightarrow> int \<Rightarrow> error + heap \<times> ref" where
  "cull_doc_freq_heap h doc_freq_map low_num_docs high_num_docs =
     (let culled_df_map = length h;
          h1 = h @ [PyDict []]
      in case get_dict h1 doc_freq_map of
           Inl e \<Rightarrow> Inl e
         | Inr es \<Rightarrow>
             (case cull_loop_heap doc_freq_map culled_df_map low_num_docs high_num_docs
                     (map fst es) h1 of
                Inl e \<Rightarrow> Inl e
              | Inr h2 \<Rightarrow> Inr (h2, culled_df_map)))"

text \<open>
  The document-frequency map that a reference stands for: the dictionary with every
  reference replaced by the list it leads to.
\<close>
fun read_entries :: "heap \<Rightarrow> (token \<times> ref) list \<Rightarrow> df_map option" where
  "read_entries h [] = Some []"
| "read_entries h ((w, a) # es) =
     (case get_list h a of
        Inl e \<Rightarrow> None
      | Inr ds \<Rightarrow> (case read_entries h es of None \<Rightarrow> None | Some m \<Rightarrow> Some ((w, ds) # m)))"

definition read_df_map :: "heap \<Rightarrow> ref \<Rightarrow> df_map option" where
  "read_df_map h r = (case get_dict h r of Inl e \<Rightarrow> None | Inr es \<Rightarrow> read_entries h es)"

section \<open>Auxiliary notions for the proofs\<close>

text \<open>
  The functions of this section are not part of the program: they describe its results.
  \<open>docs_of\<close> reads a document list with a missing token as the empty list;
  \<open>containing\<close> lists, in dictionary order, the names of the documents whose tokens
  include a given token; \<open>tokenized_of\<close> is the dataset with every text replaced by its
  tokens; \<open>no_empty\<close> says that no token is mapped to an empty document list;
  \<open>collect\<close> runs a list of computations in order and stops at the first error;
  \<open>entry_vector\<close> is one iteration of the loop over the documents; \<open>selected_df_map\<close> is
  the dictionary from which lines 128 to 131 read the document list.
\<close>

definition docs_of :: "df_map \<Rightarrow> token \<Rightarrow> doc_name list" where
  "docs_of m t = (case map_of m t of None \<Rightarrow> [] | Some ds \<Rightarrow> ds)"

definition containing :: "(string \<Rightarrow> token list) \<Rightarrow> raw_dataset \<Rightarrow> token \<Rightarrow> doc_name list" where
  "containing tokenize ds t = map fst (filter (\<lambda>e. t \<in> set (tokenize (fst (snd e)))) ds)"

definition tokenized_of :: "(string \<Rightarrow> token list) \<Rightarrow> raw_dataset \<Rightarrow> dataset" where
  "tokenized_of tokenize ds = map (\<lambda>e. (fst e, (tokenize (fst (snd e)), snd (snd e)))) ds"

definition no_empty :: "df_map \<Rightarrow> bool" where
  "no_empty m = (\<forall>t. map_of m t \<noteq> Some [])"

fun collect :: "(error + 'a) list \<Rightarrow> error + 'a list" where
  "collect [] = Inr []"
| "collect (x # xs) =
     (case x of Inl e \<Rightarrow> Inl e
      | Inr v \<Rightarrow> (case collect xs of Inl e \<Rightarrow> Inl e | Inr vs \<Rightarrow> Inr (v # vs)))"

definition entry_vector ::
  "token list \<Rightarrow> nat \<Rightarrow> df_map \<Rightarrow> df_map option \<Rightarrow> bool
     \<Rightarrow> doc_name \<times> token list \<times> class_name \<Rightarrow> error + real list \<times> class_name" where
  "entry_vector vocab N m ts tm e =
     (case doc_vector vocab N m ts tm (fst (snd e)) of
        Inl err \<Rightarrow> Inl err
      | Inr v \<Rightarrow> Inr (v, snd (snd e)))"

definition selected_df_map :: "df_map \<Rightarrow> df_map option \<Rightarrow> bool \<Rightarrow> df_map" where
  "selected_df_map doc_freq_map testset test_mode =
     (case testset of
        None \<Rightarrow> doc_freq_map
      | Some m \<Rightarrow> if test_mode \<and> m \<noteq> [] then m else doc_freq_map)"

text \<open>A tokenizer for the example inputs: every character is a token.\<close>
definition chars :: "string \<Rightarrow> token list" where
  "chars s = map (\<lambda>ch. [ch]) s"

text \<open>
  \<open>remove_token t chosen docs\<close> is the dataset \<open>docs\<close> with every occurrence of the token
  \<open>t\<close> removed from the documents whose names satisfy \<open>chosen\<close>.
\<close>
definition remove_token :: "token \<Rightarrow> (doc_name \<Rightarrow> bool) \<Rightarrow> dataset \<Rightarrow> dataset" where
  "remove_token t chosen docs =
     map (\<lambda>e. (fst e, (if chosen (fst e) then filter (\<lambda>x. x \<noteq> t) (fst (snd e)) else fst (snd e),
                        snd (snd e)))) docs"

text \<open>
  The reading of C2 as it is stated: the test-set map whenever the flag is true and a map
  is supplied (is not \<open>None\<close>), the primary map otherwise.
\<close>
definition claimed_df_map :: "df_map \<Rightarrow> df_map option \<Rightarrow> bool \<Rightarrow> df_map" where
  "claimed_df_map doc_freq_map testset test_mode =
     (case testset of
        None \<Rightarrow> doc_freq_map
      | Some m \<Rightarrow> if test_mode then m else doc_freq_map)"

text \<open>
  A training corpus of 52 documents with two-letter names: the first 51 consist of the one
  token \<open>a\<close>, the last one, \<open>gd\<close>, of the one token \<open>b\<close>.
\<close>
definition names52 :: "doc_name list" where
  "names52 = take 52 (concat (map (\<lambda>a. map (\<lambda>b. [a, b]) ''abcdefgh'') ''abcdefg''))"

definition corpus52 :: "(doc_name \<times> path \<times> class_name) list" where
  "corpus52 = map (\<lambda>n. (n, n, ''c'')) names52"

definition files52 :: "path \<Rightarrow> string option" where
  "files52 p = Some (if p = ''gd'' then ''b'' else ''a'')"

definition dataset52 :: raw_dataset where
  "dataset52 = map (\<lambda>n. (n, (if n = ''gd'' then ''b'' else ''a'', ''c''))) names52"

definition docs52 :: dataset where
  "docs52 = map (\<lambda>n. (n, ([if n = ''gd'' then ''b'' else ''a''], ''c''))) names52"

section \<open>Properties of culling\<close>

lemma update_fresh_append:
  "k \<notin> fst ` set al \<Longrightarrow> AList.update k v al = al @ [(k, v)]"
  by (induction al) auto

lemma cull_loop_filter:
  assumes "distinct (map fst es)"
    and "\<And>e. e \<in> set es \<Longrightarrow> map_of m (fst e) = Some (snd e)"
    and "fst ` set acc \<inter> fst ` set es = {}"
  shows "cull_loop m low high (map fst es) acc = Inr (acc @ filter (in_band low high) es)"
  using assms
proof (induction es arbitrary: acc)
  case Nil
  then show ?case by simp
next
  case (Cons e es)
  have look: "map_of m (fst e) = Some (snd e)"
    using Cons.prems(2) by simp
  have fresh: "fst e \<notin> fst ` set acc"
    using Cons.prems(3) by auto
  have rest: "\<And>x. x \<in> set es \<Longrightarrow> map_of m (fst x) = Some (snd x)"
    using Cons.prems(2) by simp
  have d: "distinct (map fst es)" and notin: "fst e \<notin> fst ` set es"
    using Cons.prems(1) by auto
  show ?case
  proof (cases "in_band low high e")
    case True
    have disj: "fst ` set (acc @ [(fst e, snd e)]) \<inter> fst ` set es = {}"
      using Cons.prems(3) notin by auto
    have "cull_loop m low high (map fst (e # es)) acc
        = cull_loop m low high (map fst es) (acc @ [(fst e, snd e)])"
      using True look fresh by (simp add: in_band_def update_fresh_append)
    also have "\<dots> = Inr ((acc @ [(fst e, snd e)]) @ filter (in_band low high) es)"
      by (rule Cons.IH [OF d rest disj])
    finally show ?thesis using True by simp
  next
    case False
    have disj: "fst ` set acc \<inter> fst ` set es = {}"
      using Cons.prems(3) by auto
    have "cull_loop m low high (map fst (e # es)) acc = cull_loop m low high (map fst es) acc"
      using False look by (auto simp add: in_band_def)
    also have "\<dots> = Inr (acc @ filter (in_band low high) es)"
      by (rule Cons.IH [OF d rest disj])
    finally show ?thesis using False by simp
  qed
qed

lemma cull_doc_freq_filter:
  assumes "distinct (map fst m)"
  shows "cull_doc_freq m low high = Inr (filter (in_band low high) m)"
proof -
  have "\<And>e. e \<in> set m \<Longrightarrow> map_of m (fst e) = Some (snd e)"
    using assms by (cases rule: prod.exhaust) (simp add: map_of_eq_Some_iff)
  then have "cull_loop m low high (map fst m) [] = Inr ([] @ filter (in_band low high) m)"
    using assms by (intro cull_loop_filter) auto
  then show ?thesis by (simp add: cull_doc_freq_def)
qed

text \<open>
  C3. For a document-frequency map (a dictionary, so its keys are distinct) and integer
  bounds, \<open>cull_doc_freq\<close> returns without an error the entries of the input whose document
  count \<open>c\<close> satisfies \<open>low < c < high\<close>, in the input's order, and nothing else: an entry
  of the input is in the result exactly when its count is strictly between the bounds, so
  a count equal to \<open>low\<close> or to \<open>high\<close> is excluded, and with \<open>low \<ge> high\<close> the result is the
  empty map.
\<close>
theorem cull_doc_freq_strict_band:
  assumes "distinct (map fst m)"
  shows "\<exists>r. cull_doc_freq m low high = Inr r
           \<and> r = filter (\<lambda>e. low < int (length (snd e)) \<and> int (length (snd e)) < high) m
           \<and> (\<forall>w ds. (w, ds) \<in> set r
                  \<longleftrightarrow> (w, ds) \<in> set m \<and> low < int (length ds) \<and> int (length ds) < high)
           \<and> (\<forall>w ds. (w, ds) \<in> set m \<and> (int (length ds) = low \<or> int (length ds) = high)
                  \<longrightarrow> map_of r w = None)
           \<and> (high \<le> low \<longrightarrow> r = [])"
proof -
  define r where "r = filter (\<lambda>e. low < int (length (snd e)) \<and> int (length (snd e)) < high) m"
  have eq: "in_band low high = (\<lambda>e. low < int (length (snd e)) \<and> int (length (snd e)) < high)"
    by (simp add: in_band_def fun_eq_iff)
  have main: "cull_doc_freq m low high = Inr r"
    using cull_doc_freq_filter [OF assms, of low high] by (simp add: eq r_def)
  have mem: "(w, ds) \<in> set r
      \<longleftrightarrow> (w, ds) \<in> set m \<and> low < int (length ds) \<and> int (length ds) < high" for w ds
    by (auto simp add: r_def)
  have edge: "map_of r w = None"
    if "(w, ds) \<in> set m \<and> (int (length ds) = low \<or> int (length ds) = high)" for w ds
  proof -
    have only: "\<And>ds'. (w, ds') \<in> set m \<Longrightarrow> ds' = ds"
      using assms that by (meson eq_key_imp_eq_value)
    have "w \<notin> fst ` set r"
    proof
      assume "w \<in> fst ` set r"
      then obtain ds' where in_r: "(w, ds') \<in> set r" by auto
      then have "(w, ds') \<in> set m" by (simp add: mem)
      then have "ds' = ds" by (rule only)
      with in_r that show False by (auto simp add: mem)
    qed
    then show ?thesis by (simp add: map_of_eq_None_iff)
  qed
  have empty: "r = []" if "high \<le> low"
    using that by (auto simp add: r_def filter_empty_conv)
  show ?thesis
    using main mem edge empty r_def by blast
qed

theorem cull_doc_freq_strict_band_witness:
  "distinct (map fst [(''cat'', [''d1'', ''d2'']), (''dog'', [''d1'']), (''owl'', [''d1'', ''d2'', ''d3''])])
   \<and> cull_doc_freq [(''cat'', [''d1'', ''d2'']), (''dog'', [''d1'']), (''owl'', [''d1'', ''d2'', ''d3''])] 1 3
       = Inr [(''cat'', [''d1'', ''d2''])]
   \<and> cull_doc_freq [(''cat'', [''d1'', ''d2'']), (''dog'', [''d1'']), (''owl'', [''d1'', ''d2'', ''d3''])] 3 1
       = Inr []"
proof -
  have d: "distinct (map fst [(''cat'', [''d1'', ''d2'']), (''dog'', [''d1'']),
                              (''owl'', [''d1'', ''d2'', ''d3''])])"
    by simp
  show ?thesis
    using d cull_doc_freq_strict_band [OF d, of 1 3] cull_doc_freq_strict_band [OF d, of 3 1]
    by simp
qed

section \<open>Culling leaves its argument alone\<close>

lemma get_list_append:
  "get_list h a = Inr ds \<Longrightarrow> get_list (h @ hs) a = Inr ds"
  by (auto simp add: get_list_def nth_append split: if_splits)

lemma read_entries_append:
  "read_entries h es = Some m \<Longrightarrow> read_entries (h @ hs) es = Some m"
proof (induction es arbitrary: m)
  case Nil
  then show ?case by simp
next
  case (Cons e es)
  obtain w a where e: "e = (w, a)" by (cases e)
  from Cons.prems obtain ds m' where "get_list h a = Inr ds" and "read_entries h es = Some m'"
    and "m = (w, ds) # m'"
    by (auto simp add: e split: sum.splits option.splits)
  then show ?case
    using Cons.IH by (simp add: e get_list_append)
qed

lemma read_entries_lookup:
  assumes "read_entries h es = Some m"
  shows "(map_of es w = None \<longrightarrow> map_of m w = None)
       \<and> (\<forall>r. map_of es w = Some r \<longrightarrow> (\<exists>ds. get_list h r = Inr ds \<and> map_of m w = Some ds))"
  using assms
proof (induction es arbitrary: m)
  case Nil
  then show ?case by simp
next
  case (Cons e es)
  obtain w' a where e: "e = (w', a)" by (cases e)
  from Cons.prems obtain ds m' where g: "get_list h a = Inr ds" and r: "read_entries h es = Some m'"
    and m: "m = (w', ds) # m'"
    by (auto simp add: e split: sum.splits option.splits)
  show ?case
    using Cons.IH [OF r] g by (simp add: e m)
qed

lemma read_entries_keys:
  "read_entries h es = Some m \<Longrightarrow> map fst m = map fst es"
proof (induction es arbitrary: m)
  case Nil
  then show ?case by simp
next
  case (Cons e es)
  obtain w a where e: "e = (w, a)" by (cases e)
  from Cons.prems obtain ds m' where "read_entries h es = Some m'" and "m = (w, ds) # m'"
    by (auto simp add: e split: sum.splits option.splits)
  then show ?case using Cons.IH by (simp add: e)
qed

lemma read_entries_update:
  assumes "read_entries h ces = Some culled" and "get_list h r = Inr ds"
  shows "read_entries h (AList.update w r ces) = Some (AList.update w ds culled)"
  using assms(1)
proof (induction ces arbitrary: culled)
  case Nil
  then show ?case using assms(2) by simp
next
  case (Cons e ces)
  obtain w' a where e: "e = (w', a)" by (cases e)
  from Cons.prems obtain ds' m' where g: "get_list h a = Inr ds'"
    and r: "read_entries h ces = Some m'" and m: "culled = (w', ds') # m'"
    by (auto simp add: e split: sum.splits option.splits)
  show ?case
    using Cons.IH [OF r] g r assms(2) by (simp add: e m)
qed

lemma cull_loop_heap_sim:
  assumes "a < length h0" and "h0 ! a = PyDict es" and "read_entries h0 es = Some m"
    and "read_entries h0 ces = Some culled"
  shows "(\<exists>e. cull_loop_heap a (length h0) low high ws (h0 @ [PyDict ces]) = Inl e
              \<and> cull_loop m low high ws culled = Inl e)
       \<or> (\<exists>ces' culled'.
              cull_loop_heap a (length h0) low high ws (h0 @ [PyDict ces]) = Inr (h0 @ [PyDict ces'])
              \<and> cull_loop m low high ws culled = Inr culled'
              \<and> read_entries h0 ces' = Some culled')"
  using assms(4)
proof (induction ws arbitrary: ces culled)
  case Nil
  then show ?case by simp
next
  case (Cons word ws)
  have gd: "get_dict (h0 @ [PyDict ces]) a = Inr es"
    using assms(1,2) by (simp add: get_dict_def nth_append)
  have gc: "get_dict (h0 @ [PyDict ces]) (length h0) = Inr ces"
    by (simp add: get_dict_def)
  show ?case
  proof (cases "map_of es word")
    case None
    then have "map_of m word = None"
      using read_entries_lookup [OF assms(3), of word] by simp
    then show ?thesis using None gd by simp
  next
    case (Some r)
    then obtain ds where g0: "get_list h0 r = Inr ds" and mw: "map_of m word = Some ds"
      using read_entries_lookup [OF assms(3), of word] by auto
    have g: "get_list (h0 @ [PyDict ces]) r = Inr ds"
      using g0 by (rule get_list_append)
    show ?thesis
    proof (cases "int (length ds) < high \<and> int (length ds) > low")
      case True
      have upd: "(h0 @ [PyDict ces])[length h0 := PyDict (AList.update word r ces)]
                   = h0 @ [PyDict (AList.update word r ces)]"
        by simp
      have re: "read_entries h0 (AList.update word r ces) = Some (AList.update word ds culled)"
        using Cons.prems g0 by (rule read_entries_update)
      have "cull_loop_heap a (length h0) low high (word # ws) (h0 @ [PyDict ces])
              = cull_loop_heap a (length h0) low high ws (h0 @ [PyDict (AList.update word r ces)])"
        using True Some gd g gc upd by (simp add: Let_def)
      moreover have "cull_loop m low high (word # ws) culled
              = cull_loop m low high ws (AList.update word ds culled)"
        using True mw by (simp add: Let_def)
      ultimately show ?thesis
        using Cons.IH [OF re] by simp
    next
      case False
      have "cull_loop_heap a (length h0) low high (word # ws) (h0 @ [PyDict ces])
              = cull_loop_heap a (length h0) low high ws (h0 @ [PyDict ces])"
        using False Some gd g by (auto simp add: Let_def)
      moreover have "cull_loop m low high (word # ws) culled = cull_loop m low high ws culled"
        using False mw by (auto simp add: Let_def)
      ultimately show ?thesis
        using Cons.IH [OF Cons.prems] by simp
    qed
  qed
qed

lemma read_df_map_Some:
  assumes "read_df_map h a = Some m"
  shows "\<exists>es. a < length h \<and> h ! a = PyDict es \<and> read_entries h es = Some m"
  using assms
  by (auto simp add: read_df_map_def get_dict_def split: sum.splits if_splits pyobj.splits)

text \<open>
  C8. Let the reference \<open>doc_freq_map\<close> stand for a document-frequency map \<open>m\<close> in the store
  \<open>h\<close>. Then \<open>cull_doc_freq\<close> returns a reference that did not exist in \<open>h\<close>, so the
  returned map is a new object and not the input; every object of \<open>h\<close> is unchanged in the
  new store, so the input still maps the same tokens to the same document lists; and the
  new dictionary stands for the result of the filter.
\<close>
theorem cull_doc_freq_input_untouched:
  assumes "read_df_map h doc_freq_map = Some m" and "distinct (map fst m)"
  shows "\<exists>h' culled_df_map.
           cull_doc_freq_heap h doc_freq_map low high = Inr (h', culled_df_map)
           \<and> culled_df_map = length h
           \<and> culled_df_map \<noteq> doc_freq_map
           \<and> length h' = Suc (length h)
           \<and> take (length h) h' = h
           \<and> h' ! doc_freq_map = h ! doc_freq_map
           \<and> read_df_map h' doc_freq_map = Some m
           \<and> cull_doc_freq m low high = Inr (filter (in_band low high) m)
           \<and> read_df_map h' culled_df_map = Some (filter (in_band low high) m)"
proof -
  obtain es where a: "doc_freq_map < length h" and d: "h ! doc_freq_map = PyDict es"
    and r: "read_entries h es = Some m"
    using read_df_map_Some [OF assms(1)] by blast
  have pure: "cull_doc_freq m low high = Inr (filter (in_band low high) m)"
    using assms(2) by (rule cull_doc_freq_filter)
  have keys: "map fst es = map fst m"
    using read_entries_keys [OF r] by simp
  have e0: "read_entries h [] = Some []"
    by simp
  have "cull_loop m low high (map fst es) [] = Inr (filter (in_band low high) m)"
    using pure by (simp add: cull_doc_freq_def keys)
  then obtain ces' where
    loop: "cull_loop_heap doc_freq_map (length h) low high (map fst es) (h @ [PyDict []])
             = Inr (h @ [PyDict ces'])"
    and res: "read_entries h ces' = Some (filter (in_band low high) m)"
    using cull_loop_heap_sim [OF a d r e0, of low high "map fst es"] by auto
  have gd: "get_dict (h @ [PyDict []]) doc_freq_map = Inr es"
    using a d by (simp add: get_dict_def nth_append)
  have run: "cull_doc_freq_heap h doc_freq_map low high = Inr (h @ [PyDict ces'], length h)"
    using gd loop by (simp add: cull_doc_freq_heap_def Let_def)
  have same: "(h @ [PyDict ces']) ! doc_freq_map = h ! doc_freq_map"
    using a by (simp add: nth_append)
  have old: "read_df_map (h @ [PyDict ces']) doc_freq_map = Some m"
    using a d read_entries_append [OF r, of "[PyDict ces']"]
    by (simp add: read_df_map_def get_dict_def nth_append)
  have new: "read_df_map (h @ [PyDict ces']) (length h) = Some (filter (in_band low high) m)"
    using read_entries_append [OF res, of "[PyDict ces']"]
    by (simp add: read_df_map_def get_dict_def)
  show ?thesis
    using run a same old new pure by simp
qed

lemma heap_example_read:
  "read_df_map [PyList [''d1'', ''d2''], PyList [''d1''], PyDict [(''cat'', 0), (''dog'', 1)]] 2
     = Some [(''cat'', [''d1'', ''d2'']), (''dog'', [''d1''])]"
  by (simp add: read_df_map_def get_dict_def get_list_def)

theorem cull_doc_freq_input_untouched_witness:
  "read_df_map [PyList [''d1'', ''d2''], PyList [''d1''], PyDict [(''cat'', 0), (''dog'', 1)]] 2
     = Some [(''cat'', [''d1'', ''d2'']), (''dog'', [''d1''])]
   \<and> distinct (map fst [(''cat'', [''d1'', ''d2'']), (''dog'', [''d1''])])
   \<and> cull_doc_freq_heap
         [PyList [''d1'', ''d2''], PyList [''d1''], PyDict [(''cat'', 0), (''dog'', 1)]] 2 1 3
       = Inr ([PyList [''d1'', ''d2''], PyList [''d1''], PyDict [(''cat'', 0), (''dog'', 1)],
               PyDict [(''cat'', 0)]], 3)
   \<and> read_df_map
         [PyList [''d1'', ''d2''], PyList [''d1''], PyDict [(''cat'', 0), (''dog'', 1)],
          PyDict [(''cat'', 0)]] 3
       = Some [(''cat'', [''d1'', ''d2''])]"
proof -
  have d: "distinct (map fst [(''cat'', [''d1'', ''d2'']), (''dog'', [''d1''])])"
    by simp
  obtain h' c where
    run: "cull_doc_freq_heap
            [PyList [''d1'', ''d2''], PyList [''d1''], PyDict [(''cat'', 0), (''dog'', 1)]] 2 1 3
          = Inr (h', c)"
    and new: "read_df_map h' c
          = Some (filter (in_band 1 3) [(''cat'', [''d1'', ''d2'']), (''dog'', [''d1''])])"
    using cull_doc_freq_input_untouched [OF heap_example_read d, of 1 3] by blast
  have ev: "cull_doc_freq_heap
         [PyList [''d1'', ''d2''], PyList [''d1''], PyDict [(''cat'', 0), (''dog'', 1)]] 2 1 3
       = Inr ([PyList [''d1'', ''d2''], PyList [''d1''], PyDict [(''cat'', 0), (''dog'', 1)],
               PyDict [(''cat'', 0)]], 3)"
    by (simp add: cull_doc_freq_heap_def get_dict_def get_list_def Let_def)
  have "h' = [PyList [''d1'', ''d2''], PyList [''d1''], PyDict [(''cat'', 0), (''dog'', 1)],
               PyDict [(''cat'', 0)]]" and "c = 3"
    using run ev by simp_all
  then have "read_df_map
         [PyList [''d1'', ''d2''], PyList [''d1''], PyDict [(''cat'', 0), (''dog'', 1)],
          PyDict [(''cat'', 0)]] 3
       = Some [(''cat'', [''d1'', ''d2''])]"
    using new by (simp add: in_band_def)
  then show ?thesis
    using heap_example_read d ev by blast
qed

section \<open>Properties of tokenization\<close>

lemma record_tokens_map_of:
  "map_of (record_tokens d ts seen m) t =
     (if t \<in> set ts \<and> t \<notin> set seen then Some (docs_of m t @ [d]) else map_of m t)"
proof (induction ts arbitrary: seen m)
  case Nil
  then show ?case by simp
next
  case (Cons x ts)
  show ?case
    by (auto simp add: Cons.IH docs_of_def update_conv' split: option.splits)
qed

lemma record_tokens_distinct:
  "distinct (map fst m) \<Longrightarrow> distinct (map fst (record_tokens d ts seen m))"
  by (induction ts arbitrary: seen m) (auto simp add: distinct_update split: option.splits)

lemma record_tokens_docs_of:
  "docs_of (record_tokens d ts [] m) t = (if t \<in> set ts then docs_of m t @ [d] else docs_of m t)"
  by (simp add: docs_of_def [of "record_tokens d ts [] m"] record_tokens_map_of)
    (simp add: docs_of_def)

lemma record_tokens_no_empty:
  "no_empty m \<Longrightarrow> no_empty (record_tokens d ts [] m)"
  by (simp add: no_empty_def record_tokens_map_of)

lemma tokenize_loop_result:
  assumes "0 < N" and "no_empty m"
  shows "\<exists>m'. tokenize_loop tok N i rest acc m = Inr (acc @ tokenized_of tok rest, m')
           \<and> no_empty m'
           \<and> (\<forall>t. docs_of m' t = docs_of m t @ containing tok rest t)
           \<and> (distinct (map fst m) \<longrightarrow> distinct (map fst m'))"
  using assms
proof (induction rest arbitrary: i acc m)
  case Nil
  then show ?case by (simp add: tokenized_of_def containing_def)
next
  case (Cons e rest)
  obtain n body c where e: "e = (n, (body, c))" by (metis prod.exhaust)
  define m1 where "m1 = record_tokens n (tok body) [] m"
  have ne1: "no_empty m1"
    using Cons.prems(2) by (simp add: m1_def record_tokens_no_empty)
  obtain m' where
    r: "tokenize_loop tok N (i + 1) rest (acc @ [(n, (tok body, c))]) m1
          = Inr ((acc @ [(n, (tok body, c))]) @ tokenized_of tok rest, m')"
    and ne: "no_empty m'"
    and d: "\<forall>t. docs_of m' t = docs_of m1 t @ containing tok rest t"
    and di: "distinct (map fst m1) \<longrightarrow> distinct (map fst m')"
    using Cons.IH [OF Cons.prems(1) ne1] by blast
  have step: "tokenize_loop tok N i (e # rest) acc m
        = tokenize_loop tok N (i + 1) rest (acc @ [(n, (tok body, c))]) m1"
    using Cons.prems(1) by (simp add: e m1_def print_loading_bar_def Let_def)
  have "docs_of m' t = docs_of m t @ containing tok (e # rest) t" for t
    using d by (simp add: m1_def record_tokens_docs_of containing_def e)
  moreover have "distinct (map fst m) \<longrightarrow> distinct (map fst m')"
    using di by (simp add: m1_def record_tokens_distinct)
  moreover have "tokenize_loop tok N i (e # rest) acc m = Inr (acc @ tokenized_of tok (e # rest), m')"
    using step r by (simp add: tokenized_of_def e)
  ultimately show ?case using ne by blast
qed

lemma tokenize_dataset_result:
  assumes "ds \<noteq> []"
  shows "\<exists>m'. tokenize_dataset tok ds = Inr (tokenized_of tok ds, m')
           \<and> no_empty m' \<and> distinct (map fst m')
           \<and> (\<forall>t. docs_of m' t = containing tok ds t)"
proof -
  have ne: "no_empty []" by (simp add: no_empty_def)
  have pos: "0 < length ds" using assms by simp
  obtain m' where "tokenize_loop tok (length ds) 0 ds [] [] = Inr ([] @ tokenized_of tok ds, m')"
    "no_empty m'" "\<forall>t. docs_of m' t = docs_of [] t @ containing tok ds t"
    "distinct (map fst ([]::df_map)) \<longrightarrow> distinct (map fst m')"
    using tokenize_loop_result [OF pos ne, of tok 0 ds "[]"] by blast
  then show ?thesis
    using assms by (auto simp add: tokenize_dataset_def print_loading_bar_def docs_of_def)
qed

lemma tokenize_dataset_empty: "tokenize_dataset tok [] = Inl ZeroDivisionError"
  by (simp add: tokenize_dataset_def print_loading_bar_def)

lemma map_of_docs_of:
  "no_empty m \<Longrightarrow> map_of m t = (if docs_of m t = [] then None else Some (docs_of m t))"
  by (auto simp add: no_empty_def docs_of_def split: option.splits)



lemma tokenize_dataset_Inr:
  assumes "tokenize_dataset tok ds = Inr (docs, m)"
  shows "ds \<noteq> [] \<and> docs = tokenized_of tok ds \<and> no_empty m \<and> distinct (map fst m)
           \<and> (\<forall>t. docs_of m t = containing tok ds t)"
proof -
  have ne: "ds \<noteq> []"
    using assms by (auto simp add: tokenize_dataset_empty)
  then show ?thesis
    using tokenize_dataset_result [OF ne, of tok] assms by auto
qed




text \<open>
  C10. For an empty corpus \<open>tokenize_dataset\<close> raises \<open>ZeroDivisionError\<close>, from the
  first call of \<open>print_loading_bar\<close>, which divides by the number of documents; with a
  manifest listing no documents both \<open>run\<close> and \<open>run_test\<close> fail with this error.
\<close>
theorem empty_corpus_fails:
  "tokenize_dataset tokenize [] = Inl ZeroDivisionError
   \<and> run tokenize read_file [] = Inl ZeroDivisionError
   \<and> run_test tokenize read_file [] doc_freq = Inl ZeroDivisionError"
  by (simp add: run_def run_test_def tokenize_dataset_def print_loading_bar_def)

theorem empty_corpus_fails_witness:
  "tokenize_dataset chars [] = Inl ZeroDivisionError
   \<and> run chars (\<lambda>p. None) [] = Inl ZeroDivisionError
   \<and> run_test chars (\<lambda>p. None) [] [] = Inl ZeroDivisionError"
  using empty_corpus_fails [of chars "\<lambda>p. None" "[]"] by simp

section \<open>Properties of the feature vectors\<close>

lemma index_of_Inr: "index_of vocab t = Inr i \<Longrightarrow> i < length vocab \<and> vocab ! i = t"
proof (induction vocab arbitrary: i)
  case Nil
  then show ?case by simp
next
  case (Cons v vs)
  then show ?case by (auto split: if_splits sum.splits)
qed

lemma index_of_mem: "t \<in> set vocab \<Longrightarrow> \<exists>i. index_of vocab t = Inr i"
  by (induction vocab) auto

lemma index_of_inj: "index_of vocab t = Inr i \<Longrightarrow> index_of vocab t' = Inr i \<Longrightarrow> t = t'"
  using index_of_Inr by blast

lemma collect_Inr: "collect xs = Inr vs \<longleftrightarrow> xs = map Inr vs"
proof (induction xs arbitrary: vs)
  case Nil
  then show ?case by auto
next
  case (Cons x xs)
  show ?case
  proof (cases x)
    case (Inl e)
    then show ?thesis by auto
  next
    case (Inr v)
    show ?thesis
    proof (cases "collect xs")
      case (Inl e)
      then have "\<And>ws. xs \<noteq> map Inr ws" using Cons.IH by force
      then show ?thesis using Inr Inl by (cases vs) auto
    next
      case r: (Inr ws)
      then have "xs = map Inr ws" using Cons.IH by simp
      then show ?thesis using Inr r Cons.IH by (cases vs) auto
    qed
  qed
qed

lemma collect_map_Inr: "collect (map Inr xs) = Inr xs"
  by (induction xs) auto

lemma collect_all_Inr:
  "(\<And>x. x \<in> set xs \<Longrightarrow> \<exists>v. x = Inr v) \<Longrightarrow> \<exists>vs. collect xs = Inr vs"
proof (induction xs)
  case Nil
  then show ?case by simp
next
  case (Cons x xs)
  obtain v where "x = Inr v" using Cons.prems [of x] by auto
  moreover obtain vs where "collect xs = Inr vs" using Cons.IH Cons.prems by auto
  ultimately show ?case by simp
qed

lemma vectorize_loop_collect:
  assumes "0 < N"
  shows "vectorize_loop vocab N m ts tm i rest acc =
           (case collect (map (entry_vector vocab N m ts tm) rest) of
              Inl e \<Rightarrow> Inl e
            | Inr ws \<Rightarrow> Inr (acc @ ws))"
proof (induction rest arbitrary: i acc)
  case Nil
  then show ?case by simp
next
  case (Cons e rest)
  obtain n doc c where e: "e = (n, (doc, c))" by (metis prod.exhaust)
  show ?case
    using assms
    by (simp add: e entry_vector_def print_loading_bar_def Cons.IH split: sum.splits)
qed

lemma setup_collect:
  "setup_tfidf_vectors docs m ts tm =
     (if docs = [] then Inl ZeroDivisionError
      else collect (map (entry_vector (map fst m) (length docs) m ts tm) docs))"
proof (cases "docs = []")
  case True
  then show ?thesis by (simp add: setup_tfidf_vectors_def print_loading_bar_def)
next
  case False
  then have pos: "0 < length docs" by simp
  show ?thesis
    using False
    by (simp add: setup_tfidf_vectors_def print_loading_bar_def
        vectorize_loop_collect [OF pos] split: sum.splits)
qed

lemma setup_entries:
  assumes "setup_tfidf_vectors docs m ts tm = Inr vs"
  shows "docs \<noteq> []" and "length vs = length docs"
    and "\<And>j. j < length docs \<Longrightarrow>
           doc_vector (map fst m) (length docs) m ts tm (fst (snd (docs ! j))) = Inr (fst (vs ! j))"
    and "\<And>j. j < length docs \<Longrightarrow> snd (vs ! j) = snd (snd (docs ! j))"
proof -
  show ne: "docs \<noteq> []"
    using assms by (auto simp add: setup_collect)
  then have "collect (map (entry_vector (map fst m) (length docs) m ts tm) docs) = Inr vs"
    using assms by (simp add: setup_collect)
  then have eq: "map (entry_vector (map fst m) (length docs) m ts tm) docs = map Inr vs"
    by (simp add: collect_Inr)
  show len: "length vs = length docs"
    using arg_cong [OF eq, of length] by simp
  have both: "\<exists>v. doc_vector (map fst m) (length docs) m ts tm (fst (snd (docs ! j))) = Inr v
        \<and> vs ! j = (v, snd (snd (docs ! j)))" if "j < length docs" for j
  proof -
    have "map (entry_vector (map fst m) (length docs) m ts tm) docs ! j = map Inr vs ! j"
      using eq by simp
    then have "entry_vector (map fst m) (length docs) m ts tm (docs ! j) = Inr (vs ! j)"
      using that len by simp
    then show ?thesis
      by (auto simp add: entry_vector_def split: sum.splits)
  qed
  show "doc_vector (map fst m) (length docs) m ts tm (fst (snd (docs ! j))) = Inr (fst (vs ! j))"
    if "j < length docs" for j
    using both [OF that] by auto
  show "snd (vs ! j) = snd (snd (docs ! j))" if "j < length docs" for j
    using both [OF that] by auto
qed

lemma log_idf_selected:
  "log_idf N m ts tm t = idf_from N (selected_df_map m ts tm) t"
  by (cases ts; cases tm) (simp_all add: selected_df_map_def)

lemma idf_from_Inr:
  assumes "idf_from N m t = Inr li"
  shows "\<exists>ds. map_of m t = Some ds \<and> ds \<noteq> [] \<and> 0 < real N / real (length ds)
           \<and> li = ln (real N / real (length ds))"
  using assms
  by (auto simp add: idf_from_def py_log_def not_le split: option.splits if_splits)

lemma idf_from_defined:
  assumes "map_of m t = Some ds" and "ds \<noteq> []" and "0 < N"
  shows "idf_from N m t = Inr (ln (real N / real (length ds)))"
  using assms by (simp add: idf_from_def py_log_def not_le)

lemma log_tf_mem: "t \<in> set doc \<Longrightarrow> log_tf doc t = 1 + ln (real (count_list doc t))"
  by (simp add: log_tf_def Let_def count_list_0_iff)

lemma weigh_tokens_length:
  "weigh_tokens vocab doc N m ts tm toks fv = Inr fv' \<Longrightarrow> length fv' = length fv"
proof (induction toks arbitrary: fv)
  case Nil
  then show ?case by simp
next
  case (Cons t toks)
  then show ?case by (fastforce simp add: Let_def split: if_splits sum.splits)
qed

lemma weigh_tokens_untouched:
  assumes "weigh_tokens vocab doc N m ts tm toks fv = Inr fv'"
    and "\<And>t. t \<in> set toks \<Longrightarrow> t \<in> set vocab \<Longrightarrow> index_of vocab t \<noteq> Inr j"
  shows "fv' ! j = fv ! j"
  using assms
proof (induction toks arbitrary: fv)
  case Nil
  then show ?case by simp
next
  case (Cons t toks)
  show ?case
  proof (cases "t \<in> set vocab")
    case False
    then have "weigh_tokens vocab doc N m ts tm toks fv = Inr fv'"
      using Cons.prems(1) by simp
    then show ?thesis using Cons.IH Cons.prems(2) by simp
  next
    case True
    then obtain li i where li: "log_idf N m ts tm t = Inr li" and i: "index_of vocab t = Inr i"
      and r: "weigh_tokens vocab doc N m ts tm toks (fv[i := log_tf doc t * li]) = Inr fv'"
      using Cons.prems(1) by (auto simp add: Let_def split: sum.splits)
    have "i \<noteq> j" using Cons.prems(2) [of t] True i by auto
    moreover have "fv' ! j = (fv[i := log_tf doc t * li]) ! j"
      using Cons.IH [OF r] Cons.prems(2) by simp
    ultimately show ?thesis by simp
  qed
qed

lemma weigh_tokens_stored:
  assumes "weigh_tokens vocab doc N m ts tm toks fv = Inr fv'"
    and "t \<in> set toks" and "t \<in> set vocab" and "length fv = length vocab"
  shows "\<exists>li i. log_idf N m ts tm t = Inr li \<and> index_of vocab t = Inr i
           \<and> i < length vocab \<and> fv' ! i = log_tf doc t * li"
  using assms
proof (induction toks arbitrary: fv)
  case Nil
  then show ?case by simp
next
  case (Cons x toks)
  show ?case
  proof (cases "x \<in> set vocab")
    case False
    then have r: "weigh_tokens vocab doc N m ts tm toks fv = Inr fv'"
      using Cons.prems(1) by simp
    have "t \<in> set toks" using Cons.prems(2,3) False by auto
    then show ?thesis using Cons.IH [OF r] Cons.prems(3,4) by simp
  next
    case True
    then obtain li i where li: "log_idf N m ts tm x = Inr li" and i: "index_of vocab x = Inr i"
      and r: "weigh_tokens vocab doc N m ts tm toks (fv[i := log_tf doc x * li]) = Inr fv'"
      using Cons.prems(1) by (auto simp add: Let_def split: sum.splits)
    have len: "length (fv[i := log_tf doc x * li]) = length vocab"
      using Cons.prems(4) by simp
    show ?thesis
    proof (cases "t \<in> set toks")
      case True
      then show ?thesis using Cons.IH [OF r _ Cons.prems(3) len] by simp
    next
      case False
      then have tx: "t = x" using Cons.prems(2) by simp
      have bound: "i < length vocab" using index_of_Inr [OF i] by simp
      have "\<And>u. u \<in> set toks \<Longrightarrow> u \<in> set vocab \<Longrightarrow> index_of vocab u \<noteq> Inr i"
        using False tx i index_of_inj by blast
      then have "fv' ! i = (fv[i := log_tf doc x * li]) ! i"
        by (rule weigh_tokens_untouched [OF r])
      then have "fv' ! i = log_tf doc x * li"
        using bound Cons.prems(4) by simp
      then show ?thesis using tx li i bound by blast
    qed
  qed
qed

lemma weigh_tokens_returns:
  assumes "\<And>t. t \<in> set toks \<Longrightarrow> t \<in> set vocab \<Longrightarrow> \<exists>li. log_idf N m ts tm t = Inr li"
  shows "\<exists>fv'. weigh_tokens vocab doc N m ts tm toks fv = Inr fv'"
  using assms
proof (induction toks arbitrary: fv)
  case Nil
  then show ?case by simp
next
  case (Cons x toks)
  show ?case
  proof (cases "x \<in> set vocab")
    case False
    then show ?thesis using Cons.IH Cons.prems by simp
  next
    case True
    obtain li where li: "log_idf N m ts tm x = Inr li"
      using Cons.prems [of x] True by auto
    obtain i where i: "index_of vocab x = Inr i"
      using index_of_mem [OF True] by blast
    show ?thesis
      using True li i Cons.IH [of "fv[i := log_tf doc x * li]"] Cons.prems
      by (simp add: Let_def)
  qed
qed

lemma setup_tfidf_vectors_returns:
  assumes "docs \<noteq> []"
    and "\<And>n doc c t. (n, (doc, c)) \<in> set docs \<Longrightarrow> t \<in> set doc \<Longrightarrow> t \<in> set (map fst m)
           \<Longrightarrow> \<exists>ds. map_of (selected_df_map m ts tm) t = Some ds \<and> ds \<noteq> []"
  shows "\<exists>vs. setup_tfidf_vectors docs m ts tm = Inr vs"
proof -
  have pos: "0 < length docs"
    using assms(1) by simp
  have "\<exists>v. entry_vector (map fst m) (length docs) m ts tm e = Inr v" if "e \<in> set docs" for e
  proof -
    have "\<exists>li. log_idf (length docs) m ts tm t = Inr li"
      if td: "t \<in> set (fst (snd e))" and tv: "t \<in> set (map fst m)" for t
    proof -
      have "(fst e, (fst (snd e), snd (snd e))) \<in> set docs"
        using \<open>e \<in> set docs\<close> by simp
      then obtain ds where "map_of (selected_df_map m ts tm) t = Some ds" and "ds \<noteq> []"
        using assms(2) td tv by blast
      then show ?thesis
        using pos by (simp add: log_idf_selected idf_from_defined)
    qed
    then obtain fv where "doc_vector (map fst m) (length docs) m ts tm (fst (snd e)) = Inr fv"
      unfolding doc_vector_def using weigh_tokens_returns by blast
    then show ?thesis by (simp add: entry_vector_def)
  qed
  then have "\<exists>vs. collect (map (entry_vector (map fst m) (length docs) m ts tm) docs) = Inr vs"
    by (intro collect_all_Inr) auto
  then show ?thesis
    using assms(1) by (simp add: setup_collect)
qed

lemma setup_example:
  "setup_tfidf_vectors
     [(''d1'', ([''a'', ''a'', ''b''], ''c1'')), (''d2'', ([], ''c2''))]
     [(''a'', [''d1'']), (''b'', [''d1'', ''d2''])] None False
   = Inr [([(1 + ln 2) * ln 2, 0], ''c1''), ([0, 0], ''c2'')]"
  by (simp add: setup_tfidf_vectors_def print_loading_bar_def doc_vector_def log_tf_def
      idf_from_def py_log_def Let_def)

text \<open>
  C5. Every feature vector that \<open>setup_tfidf_vectors\<close> returns has as many components as
  the primary document-frequency map has keys, whatever the tokens of the document are;
  there is one vector per document.
\<close>
theorem setup_tfidf_vectors_length:
  assumes "setup_tfidf_vectors docs doc_freq_map testset test_mode = Inr vs"
  shows "length vs = length docs
       \<and> (\<forall>v \<in> set vs. length (fst v) = length (map fst doc_freq_map))"
proof -
  have len: "length vs = length docs"
    using assms by (rule setup_entries(2))
  have "length (fst v) = length (map fst doc_freq_map)" if "v \<in> set vs" for v
  proof -
    have "\<exists>j. j < length vs \<and> vs ! j = v"
      using that unfolding in_set_conv_nth by blast
    then obtain j where j: "j < length vs" and v: "vs ! j = v"
      by blast
    have jd: "j < length docs"
      using len j by simp
    have "doc_vector (map fst doc_freq_map) (length docs) doc_freq_map testset test_mode
            (fst (snd (docs ! j))) = Inr (fst (vs ! j))"
      using assms jd by (rule setup_entries(3))
    then have "weigh_tokens (map fst doc_freq_map) (fst (snd (docs ! j))) (length docs)
                 doc_freq_map testset test_mode (fst (snd (docs ! j)))
                 (replicate (length (map fst doc_freq_map)) 0) = Inr (fst v)"
      unfolding doc_vector_def v .
    then have "length (fst v) = length (replicate (length (map fst doc_freq_map)) (0::real))"
      by (rule weigh_tokens_length)
    then show ?thesis by simp
  qed
  then have "\<forall>v \<in> set vs. length (fst v) = length (map fst doc_freq_map)" ..
  with len show ?thesis ..
qed

theorem setup_tfidf_vectors_length_witness:
  "setup_tfidf_vectors
     [(''d1'', ([''a'', ''a'', ''b''], ''c1'')), (''d2'', ([], ''c2''))]
     [(''a'', [''d1'']), (''b'', [''d1'', ''d2''])] None False
   = Inr [([(1 + ln 2) * ln 2, 0], ''c1''), ([0, 0], ''c2'')]
   \<and> length [([(1 + ln 2) * ln 2, 0::real], ''c1''), ([0, 0], ''c2'')] = 2
   \<and> length (fst (([0, 0::real], ''c2''))) = length (map fst [(''a'', [''d1'']), (''b'', [''d1'', ''d2''])])"
proof -
  have "\<forall>v \<in> set [([(1 + ln 2) * ln 2, 0::real], ''c1''), ([0, 0], ''c2'')].
          length (fst v) = length (map fst [(''a'', [''d1'']), (''b'', [''d1'', ''d2''])])"
    using setup_tfidf_vectors_length [OF setup_example] by (rule conjunct2)
  moreover have "([0, 0::real], ''c2'') \<in> set [([(1 + ln 2) * ln 2, 0::real], ''c1''), ([0, 0], ''c2'')]"
    by simp
  ultimately have "length (fst (([0, 0::real], ''c2'')))
          = length (map fst [(''a'', [''d1'']), (''b'', [''d1'', ''d2''])])"
    by (rule bspec)
  then show ?thesis
    using setup_example by simp
qed

text \<open>
  C1. Let \<open>setup_tfidf_vectors\<close> return \<open>vs\<close>. For the \<open>j\<close>-th document, with token sequence
  \<open>doc\<close>, and every token \<open>t\<close> of \<open>doc\<close> that is in the vocabulary, \<open>t\<close> has a non-empty
  document list \<open>ds\<close> in the selected document-frequency map, and the \<open>j\<close>-th vector holds
  at the vocabulary index of \<open>t\<close> the weight \<open>(1 + ln tf) * ln (N / df)\<close>, where \<open>tf\<close> is the
  number of occurrences of \<open>t\<close> in \<open>doc\<close>, \<open>N\<close> the number of documents and \<open>df\<close> the
  length of \<open>ds\<close>.
\<close>
theorem setup_tfidf_vectors_weight:
  assumes "setup_tfidf_vectors docs doc_freq_map testset test_mode = Inr vs"
    and "j < length docs"
    and "docs ! j = (doc_name, (doc, class_name))"
    and "t \<in> set doc"
    and "t \<in> set (map fst doc_freq_map)"
  shows "\<exists>ds i. map_of (selected_df_map doc_freq_map testset test_mode) t = Some ds
           \<and> ds \<noteq> []
           \<and> index_of (map fst doc_freq_map) t = Inr i
           \<and> i < length (fst (vs ! j))
           \<and> snd (vs ! j) = class_name
           \<and> fst (vs ! j) ! i
               = (1 + ln (real (count_list doc t))) * ln (real (length docs) / real (length ds))"
proof -
  let ?vocab = "map fst doc_freq_map"
  let ?N = "length docs"
  have dv: "doc_vector ?vocab ?N doc_freq_map testset test_mode doc = Inr (fst (vs ! j))"
    using setup_entries(3) [OF assms(1,2)] assms(3) by simp
  have cl: "snd (vs ! j) = class_name"
    using setup_entries(4) [OF assms(1,2)] assms(3) by simp
  have w: "weigh_tokens ?vocab doc ?N doc_freq_map testset test_mode doc
             (replicate (length ?vocab) 0) = Inr (fst (vs ! j))"
    using dv by (simp add: doc_vector_def)
  have len: "length (fst (vs ! j)) = length ?vocab"
    using weigh_tokens_length [OF w] by simp
  have "length (replicate (length ?vocab) (0::real)) = length ?vocab"
    by simp
  from weigh_tokens_stored [OF w assms(4) assms(5) this]
  obtain li i where li: "log_idf ?N doc_freq_map testset test_mode t = Inr li"
    and i: "index_of ?vocab t = Inr i" and bound: "i < length ?vocab"
    and val: "fst (vs ! j) ! i = log_tf doc t * li"
    by blast
  have "idf_from ?N (selected_df_map doc_freq_map testset test_mode) t = Inr li"
    using li by (simp add: log_idf_selected)
  then obtain ds where ds: "map_of (selected_df_map doc_freq_map testset test_mode) t = Some ds"
    and ne: "ds \<noteq> []" and lv: "li = ln (real ?N / real (length ds))"
    using idf_from_Inr by blast
  have "fst (vs ! j) ! i = (1 + ln (real (count_list doc t))) * ln (real ?N / real (length ds))"
    using val lv log_tf_mem [OF assms(4)] by simp
  then show ?thesis
    using ds ne i bound len cl by auto
qed

theorem setup_tfidf_vectors_weight_witness:
  "setup_tfidf_vectors
     [(''d1'', ([''a'', ''a'', ''b''], ''c1'')), (''d2'', ([], ''c2''))]
     [(''a'', [''d1'']), (''b'', [''d1'', ''d2''])] None False
   = Inr [([(1 + ln 2) * ln 2, 0], ''c1''), ([0, 0], ''c2'')]
   \<and> ''a'' \<in> set [''a'', ''a'', ''b'']
   \<and> ''a'' \<in> set (map fst [(''a'', [''d1'']), (''b'', [''d1'', ''d2''])])
   \<and> map_of (selected_df_map [(''a'', [''d1'']), (''b'', [''d1'', ''d2''])] None False) ''a''
         = Some [''d1'']
   \<and> index_of (map fst [(''a'', [''d1'']), (''b'', [''d1'', ''d2''])]) ''a'' = Inr 0
   \<and> [(1 + ln 2) * ln 2, 0] ! 0
         = (1 + ln (real (count_list [''a'', ''a'', ''b''] ''a''))) * ln (real 2 / real (length [''d1'']))"
proof -
  have j: "0 < length [(''d1'', ([''a'', ''a'', ''b''], ''c1'')), (''d2'', ([]::token list, ''c2''))]"
    by simp
  have e: "[(''d1'', ([''a'', ''a'', ''b''], ''c1'')), (''d2'', ([], ''c2''))] ! 0
             = (''d1'', ([''a'', ''a'', ''b''], ''c1''))"
    by simp
  have t: "''a'' \<in> set [''a'', ''a'', ''b'']"
    by simp
  have v: "''a'' \<in> set (map fst [(''a'', [''d1'']), (''b'', [''d1'', ''d2''])])"
    by simp
  have sel: "map_of (selected_df_map [(''a'', [''d1'']), (''b'', [''d1'', ''d2''])] None False) ''a''
         = Some [''d1'']"
    by (simp add: selected_df_map_def)
  have idx: "index_of (map fst [(''a'', [''d1'']), (''b'', [''d1'', ''d2''])]) ''a'' = Inr 0"
    by simp
  obtain ds i where
    ds: "map_of (selected_df_map [(''a'', [''d1'']), (''b'', [''d1'', ''d2''])] None False) ''a''
           = Some ds"
    and i: "index_of (map fst [(''a'', [''d1'']), (''b'', [''d1'', ''d2''])]) ''a'' = Inr i"
    and w: "fst ([([(1 + ln 2) * ln 2, 0::real], ''c1''), ([0, 0], ''c2'')] ! 0) ! i
               = (1 + ln (real (count_list [''a'', ''a'', ''b''] ''a'')))
                   * ln (real (length [(''d1'', ([''a'', ''a'', ''b''], ''c1'')), (''d2'', ([], ''c2''))])
                          / real (length ds))"
    using setup_tfidf_vectors_weight [OF setup_example j e t v] by blast
  have "ds = [''d1'']" using ds sel by simp
  moreover have "i = 0" using i idx by simp
  ultimately have "[(1 + ln 2) * ln 2, 0] ! 0
         = (1 + ln (real (count_list [''a'', ''a'', ''b''] ''a''))) * ln (real 2 / real (length [''d1'']))"
    using w by simp
  then show ?thesis
    using setup_example t v sel idx by blast
qed

lemma count_list_filter_neq: "u \<noteq> t \<Longrightarrow> count_list (filter (\<lambda>x. x \<noteq> t) doc) u = count_list doc u"
  by (induction doc) auto

lemma weigh_tokens_remove:
  assumes "t \<notin> set vocab"
  shows "weigh_tokens vocab (filter (\<lambda>x. x \<noteq> t) doc) N m ts tm (filter (\<lambda>x. x \<noteq> t) toks) fv
           = weigh_tokens vocab doc N m ts tm toks fv"
proof (induction toks arbitrary: fv)
  case Nil
  then show ?case by simp
next
  case (Cons x toks)
  show ?case
  proof (cases "x \<in> set vocab")
    case False
    then show ?thesis using Cons.IH by simp
  next
    case True
    then have "x \<noteq> t" using assms by auto
    then have "log_tf (filter (\<lambda>x. x \<noteq> t) doc) x = log_tf doc x"
      by (simp add: log_tf_def count_list_filter_neq)
    then show ?thesis
      using True \<open>x \<noteq> t\<close> Cons.IH by (simp add: Let_def split: sum.splits)
  qed
qed

lemma doc_vector_remove:
  "t \<notin> set vocab \<Longrightarrow>
     doc_vector vocab N m ts tm (filter (\<lambda>x. x \<noteq> t) doc) = doc_vector vocab N m ts tm doc"
  by (simp add: doc_vector_def weigh_tokens_remove)

text \<open>
  C6. A token that is not in the vocabulary affects no vector component: for fixed
  document-frequency maps, removing all its occurrences from any of the documents leaves
  the result of \<open>setup_tfidf_vectors\<close> unchanged (the vectors, or the error raised).
\<close>
theorem out_of_vocabulary_token_irrelevant:
  assumes "t \<notin> set (map fst doc_freq_map)"
  shows "setup_tfidf_vectors (remove_token t chosen docs) doc_freq_map testset test_mode
           = setup_tfidf_vectors docs doc_freq_map testset test_mode"
proof -
  have "entry_vector (map fst doc_freq_map) N doc_freq_map testset test_mode
          (fst e, (if chosen (fst e) then filter (\<lambda>x. x \<noteq> t) (fst (snd e)) else fst (snd e),
                   snd (snd e)))
        = entry_vector (map fst doc_freq_map) N doc_freq_map testset test_mode e" for e N
    using assms by (simp add: entry_vector_def doc_vector_remove split: sum.splits)
  then have "map (entry_vector (map fst doc_freq_map) N doc_freq_map testset test_mode)
               (remove_token t chosen docs)
           = map (entry_vector (map fst doc_freq_map) N doc_freq_map testset test_mode) docs" for N
    by (simp add: remove_token_def comp_def)
  moreover have "length (remove_token t chosen docs) = length docs"
    by (simp add: remove_token_def)
  moreover have "remove_token t chosen docs = [] \<longleftrightarrow> docs = []"
    by (simp add: remove_token_def)
  ultimately show ?thesis
    by (simp add: setup_collect)
qed

theorem out_of_vocabulary_token_irrelevant_witness:
  "''z'' \<notin> set (map fst [(''a'', [''d1'']), (''b'', [''d1'', ''d2''])])
   \<and> remove_token ''z'' (\<lambda>n. n = ''d1'')
        [(''d1'', ([''a'', ''z'', ''a'', ''b'', ''z''], ''c1'')), (''d2'', ([''z''], ''c2''))]
       = [(''d1'', ([''a'', ''a'', ''b''], ''c1'')), (''d2'', ([''z''], ''c2''))]
   \<and> setup_tfidf_vectors
         [(''d1'', ([''a'', ''a'', ''b''], ''c1'')), (''d2'', ([''z''], ''c2''))]
         [(''a'', [''d1'']), (''b'', [''d1'', ''d2''])] None False
       = setup_tfidf_vectors
           [(''d1'', ([''a'', ''z'', ''a'', ''b'', ''z''], ''c1'')), (''d2'', ([''z''], ''c2''))]
           [(''a'', [''d1'']), (''b'', [''d1'', ''d2''])] None False"
proof -
  have z: "''z'' \<notin> set (map fst [(''a'', [''d1'']), (''b'', [''d1'', ''d2''])])"
    by simp
  have r: "remove_token ''z'' (\<lambda>n. n = ''d1'')
        [(''d1'', ([''a'', ''z'', ''a'', ''b'', ''z''], ''c1'')), (''d2'', ([''z''], ''c2''))]
       = [(''d1'', ([''a'', ''a'', ''b''], ''c1'')), (''d2'', ([''z''], ''c2''))]"
    by (simp add: remove_token_def)
  have "setup_tfidf_vectors
         (remove_token ''z'' (\<lambda>n. n = ''d1'')
            [(''d1'', ([''a'', ''z'', ''a'', ''b'', ''z''], ''c1'')), (''d2'', ([''z''], ''c2''))])
         [(''a'', [''d1'']), (''b'', [''d1'', ''d2''])] None False
       = setup_tfidf_vectors
           [(''d1'', ([''a'', ''z'', ''a'', ''b'', ''z''], ''c1'')), (''d2'', ([''z''], ''c2''))]
           [(''a'', [''d1'']), (''b'', [''d1'', ''d2''])] None False"
    using z by (rule out_of_vocabulary_token_irrelevant)
  then show ?thesis
    using z r by simp
qed

section \<open>The source of the document frequency\<close>

lemma weigh_tokens_cong_idf:
  assumes "\<And>t. t \<in> set toks \<Longrightarrow> log_idf N m ts tm t = log_idf N m' ts' tm' t"
  shows "weigh_tokens vocab doc N m ts tm toks fv = weigh_tokens vocab doc N m' ts' tm' toks fv"
  using assms
proof (induction toks arbitrary: fv)
  case Nil
  then show ?case by simp
next
  case (Cons x toks)
  have "log_idf N m ts tm x = log_idf N m' ts' tm' x"
    using Cons.prems by simp
  moreover have "weigh_tokens vocab doc N m ts tm toks fv' = weigh_tokens vocab doc N m' ts' tm' toks fv'"
    for fv'
    using Cons.IH Cons.prems by simp
  ultimately show ?case
    by (simp add: Let_def split: sum.splits)
qed

lemma setup_cong_idf:
  assumes "map fst m' = map fst m"
    and "\<And>t. log_idf (length docs) m ts tm t = log_idf (length docs) m' ts' tm' t"
  shows "setup_tfidf_vectors docs m ts tm = setup_tfidf_vectors docs m' ts' tm'"
proof -
  have "doc_vector (map fst m) (length docs) m ts tm doc
          = doc_vector (map fst m) (length docs) m' ts' tm' doc" for doc
    unfolding doc_vector_def using assms(2) by (intro weigh_tokens_cong_idf) simp
  then have "entry_vector (map fst m) (length docs) m ts tm
               = entry_vector (map fst m) (length docs) m' ts' tm'"
    by (simp add: entry_vector_def fun_eq_iff)
  then show ?thesis
    by (simp add: setup_collect assms(1))
qed

text \<open>
  C2, as the code has it. The document list for the idf term comes from the test-set map
  exactly when the flag is true and a non-empty test-set map is supplied: then the lists of
  the primary map are not read at all (the result is the same for every primary map with
  the same keys). In every other case, which includes a supplied but empty test-set map,
  it comes from the primary map and the test-set argument is not read.
\<close>
theorem idf_source_selection:
  "(test_mode \<and> testset = Some m \<and> m \<noteq> [] \<longrightarrow>
      log_idf N doc_freq_map testset test_mode t = idf_from N m t
      \<and> (\<forall>doc_freq_map'. map fst doc_freq_map' = map fst doc_freq_map \<longrightarrow>
            setup_tfidf_vectors docs doc_freq_map' testset test_mode
              = setup_tfidf_vectors docs doc_freq_map testset test_mode))
   \<and> (\<not> (test_mode \<and> (\<exists>m. testset = Some m \<and> m \<noteq> [])) \<longrightarrow>
      log_idf N doc_freq_map testset test_mode t = idf_from N doc_freq_map t
      \<and> setup_tfidf_vectors docs doc_freq_map testset test_mode
          = setup_tfidf_vectors docs doc_freq_map None False)"
proof (intro conjI impI allI)
  assume a: "test_mode \<and> testset = Some m \<and> m \<noteq> []"
  then show "log_idf N doc_freq_map testset test_mode t = idf_from N m t"
    by simp
  fix doc_freq_map' :: df_map
  assume k: "map fst doc_freq_map' = map fst doc_freq_map"
  have "log_idf (length docs) doc_freq_map' testset test_mode u
          = log_idf (length docs) doc_freq_map testset test_mode u" for u
    using a by simp
  then show "setup_tfidf_vectors docs doc_freq_map' testset test_mode
              = setup_tfidf_vectors docs doc_freq_map testset test_mode"
    using k by (intro setup_cong_idf) simp_all
next
  assume b: "\<not> (test_mode \<and> (\<exists>m. testset = Some m \<and> m \<noteq> []))"
  have sel: "log_idf K doc_freq_map testset test_mode u = idf_from K doc_freq_map u" for K u
    using b by (cases testset; cases test_mode) auto
  show "log_idf N doc_freq_map testset test_mode t = idf_from N doc_freq_map t"
    by (rule sel)
  have "log_idf (length docs) doc_freq_map testset test_mode u
          = log_idf (length docs) doc_freq_map None False u" for u
    by (simp add: sel)
  then show "setup_tfidf_vectors docs doc_freq_map testset test_mode
          = setup_tfidf_vectors docs doc_freq_map None False"
    by (intro setup_cong_idf) simp_all
qed

theorem idf_source_selection_witness:
  "log_idf 2 [(''a'', [''d1''])] (Some [(''a'', [''t1'', ''t2''])]) True ''a''
     = idf_from 2 [(''a'', [''t1'', ''t2''])] ''a''
   \<and> setup_tfidf_vectors [(''t1'', ([''a''], ''p1'')), (''t2'', ([''a''], ''p2''))]
        [(''a'', [])] (Some [(''a'', [''t1'', ''t2''])]) True
     = setup_tfidf_vectors [(''t1'', ([''a''], ''p1'')), (''t2'', ([''a''], ''p2''))]
        [(''a'', [''d1''])] (Some [(''a'', [''t1'', ''t2''])]) True
   \<and> log_idf 2 [(''a'', [''d1''])] (Some []) True ''a'' = idf_from 2 [(''a'', [''d1''])] ''a''
   \<and> setup_tfidf_vectors [(''t1'', ([''a''], ''p1'')), (''t2'', ([''a''], ''p2''))]
        [(''a'', [''d1''])] (Some []) True
     = setup_tfidf_vectors [(''t1'', ([''a''], ''p1'')), (''t2'', ([''a''], ''p2''))]
        [(''a'', [''d1''])] None False"
proof -
  have a: "True \<and> Some [(''a'', [''t1'', ''t2''])] = Some [(''a'', [''t1'', ''t2''])]
             \<and> [(''a'', [''t1'', ''t2''])] \<noteq> []"
    by simp
  have b: "\<not> (True \<and> (\<exists>m. Some ([]::df_map) = Some m \<and> m \<noteq> []))"
    by simp
  have k: "map fst [(''a'', ([]::doc_name list))] = map fst [(''a'', [''d1''])]"
    by simp
  note first = idf_source_selection [of True "Some [(''a'', [''t1'', ''t2''])]"
      "[(''a'', [''t1'', ''t2''])]" 2 "[(''a'', [''d1''])]" "''a''"
      "[(''t1'', ([''a''], ''p1'')), (''t2'', ([''a''], ''p2''))]", THEN conjunct1, rule_format, OF a]
  note second = idf_source_selection [of True "Some []" "[]" 2 "[(''a'', [''d1''])]" "''a''"
      "[(''t1'', ([''a''], ''p1'')), (''t2'', ([''a''], ''p2''))]", THEN conjunct2, rule_format, OF b]
  show ?thesis
    using first [THEN conjunct1] first [THEN conjunct2, rule_format, OF k]
      second [THEN conjunct1] second [THEN conjunct2]
    by blast
qed

text \<open>
  As C2 is stated, a supplied test-set map is read whenever the flag is true. With the flag
  true and the empty dictionary supplied, the code reads the primary map instead: the idf
  term is \<open>ln (1 / 1) = 0\<close> and the vector is returned, where a lookup in the supplied
  map raises \<open>KeyError\<close>.
\<close>
theorem idf_source_claimed_counterexample:
  "log_idf 1 [(''a'', [''d1''])] (Some []) True ''a'' = Inr 0
   \<and> idf_from 1 (claimed_df_map [(''a'', [''d1''])] (Some []) True) ''a'' = Inl KeyError
   \<and> log_idf 1 [(''a'', [''d1''])] (Some []) True ''a''
        \<noteq> idf_from 1 (claimed_df_map [(''a'', [''d1''])] (Some []) True) ''a''
   \<and> setup_tfidf_vectors [(''t1'', ([''a''], ''p1''))] [(''a'', [''d1''])] (Some []) True
        = Inr [([0], ''p1'')]"
  by (simp add: claimed_df_map_def idf_from_def py_log_def setup_tfidf_vectors_def
      print_loading_bar_def doc_vector_def log_tf_def Let_def)

section \<open>The test pipeline\<close>

lemma tokenized_entry:
  assumes "(n, (doc, c)) \<in> set (tokenized_of tok ds)" and "t \<in> set doc"
  shows "containing tok ds t \<noteq> []"
proof -
  obtain e where e: "e \<in> set ds" and "doc = tok (fst (snd e))"
    using assms(1) by (auto simp add: tokenized_of_def)
  then have "e \<in> set (filter (\<lambda>e. t \<in> set (tok (fst (snd e)))) ds)"
    using assms(2) by simp
  then have "filter (\<lambda>e. t \<in> set (tok (fst (snd e)))) ds \<noteq> []"
    by (metis empty_iff empty_set)
  then show ?thesis
    by (simp add: containing_def)
qed

text \<open>
  C9. In \<open>run_test\<close>, let \<open>tokenize_dataset\<close> return the documents and the test-set
  document-frequency map. Every token of every document then has a non-empty document
  list \<open>l\<close> in the test-set map, the quotient \<open>N / df\<close> is positive, and lines 128 to 131
  compute \<open>ln (N / df)\<close> from that list without an error. So \<open>setup_tfidf_vectors\<close>
  returns the vectors, and \<open>run_test\<close> returns them too unless one of its three \<open>print\<close>
  statements indexes past the end of a list of fewer than 46 vectors.
\<close>
theorem run_test_df_lookup_defined:
  assumes "sample_texts_for_test read_file fpc [] = Inr dataset"
    and "tokenize_dataset tokenize dataset = Inr (docs, doc_freq_testset)"
  shows "(\<forall>n doc c t. (n, (doc, c)) \<in> set docs \<and> t \<in> set doc \<longrightarrow>
            (\<exists>l. map_of doc_freq_testset t = Some l \<and> l \<noteq> []
                 \<and> 0 < real (length docs) / real (length l)
                 \<and> log_idf (length docs) doc_freq (Some doc_freq_testset) True t
                     = Inr (ln (real (length docs) / real (length l)))))
       \<and> (\<exists>vs. setup_tfidf_vectors docs doc_freq (Some doc_freq_testset) True = Inr vs
                \<and> run_test tokenize read_file fpc doc_freq
                    = (if 45 < length docs then Inr vs else Inl IndexError))"
proof -
  note r = tokenize_dataset_Inr [OF assms(2)]
  have ne: "dataset \<noteq> []" and docs: "docs = tokenized_of tokenize dataset"
    and noe: "no_empty doc_freq_testset"
    and cont: "\<And>t. docs_of doc_freq_testset t = containing tokenize dataset t"
    using r by blast+
  have pos: "0 < length docs"
    using ne by (simp add: docs tokenized_of_def)
  have entry: "\<exists>l. map_of doc_freq_testset t = Some l \<and> l \<noteq> []
                 \<and> 0 < real (length docs) / real (length l)
                 \<and> log_idf (length docs) doc_freq (Some doc_freq_testset) True t
                     = Inr (ln (real (length docs) / real (length l)))"
    if "(n, (doc, c)) \<in> set docs \<and> t \<in> set doc" for n doc c t
  proof -
    have "containing tokenize dataset t \<noteq> []"
      using that tokenized_entry unfolding docs by blast
    then have d: "docs_of doc_freq_testset t \<noteq> []"
      by (simp add: cont)
    then obtain l where l: "map_of doc_freq_testset t = Some l" and lne: "l \<noteq> []"
      using map_of_docs_of [OF noe, of t] by auto
    have q: "0 < real (length docs) / real (length l)"
      using pos lne by simp
    have "doc_freq_testset \<noteq> []"
      using l by auto
    then have "log_idf (length docs) doc_freq (Some doc_freq_testset) True t
                 = Inr (ln (real (length docs) / real (length l)))"
      using l lne q by (simp add: idf_from_def py_log_def not_le)
    then show ?thesis using l lne q by blast
  qed
  have "\<exists>v. entry_vector (map fst doc_freq) (length docs) doc_freq (Some doc_freq_testset) True e
              = Inr v" if "e \<in> set docs" for e
  proof -
    have "\<exists>li. log_idf (length docs) doc_freq (Some doc_freq_testset) True t = Inr li"
      if "t \<in> set (fst (snd e))" for t
    proof -
      have "(fst e, (fst (snd e), snd (snd e))) \<in> set docs \<and> t \<in> set (fst (snd e))"
        using \<open>e \<in> set docs\<close> that by simp
      then show ?thesis using entry by blast
    qed
    then obtain fv where "doc_vector (map fst doc_freq) (length docs) doc_freq
        (Some doc_freq_testset) True (fst (snd e)) = Inr fv"
      unfolding doc_vector_def using weigh_tokens_returns by blast
    then show ?thesis by (simp add: entry_vector_def)
  qed
  then have "\<exists>vs. collect (map (entry_vector (map fst doc_freq) (length docs) doc_freq
                 (Some doc_freq_testset) True) docs) = Inr vs"
    by (intro collect_all_Inr) auto
  then obtain vs where vs: "setup_tfidf_vectors docs doc_freq (Some doc_freq_testset) True = Inr vs"
    using pos by (auto simp add: setup_collect)
  have len: "length vs = length docs"
    using vs by (rule setup_entries(2))
  have "run_test tokenize read_file fpc doc_freq
          = (if 45 < length docs then Inr vs else Inl IndexError)"
    using pos by (simp add: run_test_def assms vs len)
  then show ?thesis
    using entry vs by blast
qed

lemma run_test_example_sample:
  "sample_texts_for_test (\<lambda>p. if p = ''p1'' then Some ''ab'' else Some ''b'')
     [(''t1'', ''p1''), (''t2'', ''p2'')] []
   = Inr [(''t1'', (''ab'', ''p1'')), (''t2'', (''b'', ''p2''))]"
  by simp

lemma run_test_example_tokens:
  "tokenize_dataset chars [(''t1'', (''ab'', ''p1'')), (''t2'', (''b'', ''p2''))]
   = Inr ([(''t1'', ([''a'', ''b''], ''p1'')), (''t2'', ([''b''], ''p2''))],
          [(''a'', [''t1'']), (''b'', [''t1'', ''t2''])])"
  by (simp add: tokenize_dataset_def print_loading_bar_def chars_def Let_def)

theorem run_test_df_lookup_defined_witness:
  "sample_texts_for_test (\<lambda>p. if p = ''p1'' then Some ''ab'' else Some ''b'')
     [(''t1'', ''p1''), (''t2'', ''p2'')] []
     = Inr [(''t1'', (''ab'', ''p1'')), (''t2'', (''b'', ''p2''))]
   \<and> tokenize_dataset chars [(''t1'', (''ab'', ''p1'')), (''t2'', (''b'', ''p2''))]
     = Inr ([(''t1'', ([''a'', ''b''], ''p1'')), (''t2'', ([''b''], ''p2''))],
            [(''a'', [''t1'']), (''b'', [''t1'', ''t2''])])
   \<and> (\<exists>l. map_of [(''a'', [''t1'']), (''b'', [''t1'', ''t2''])] ''b'' = Some l \<and> l \<noteq> []
          \<and> log_idf 2 [(''b'', [''d1''])] (Some [(''a'', [''t1'']), (''b'', [''t1'', ''t2''])]) True ''b''
              = Inr (ln (2 / real (length l))))
   \<and> (\<exists>vs. setup_tfidf_vectors [(''t1'', ([''a'', ''b''], ''p1'')), (''t2'', ([''b''], ''p2''))]
               [(''b'', [''d1''])] (Some [(''a'', [''t1'']), (''b'', [''t1'', ''t2''])]) True = Inr vs)
   \<and> run_test chars (\<lambda>p. if p = ''p1'' then Some ''ab'' else Some ''b'')
         [(''t1'', ''p1''), (''t2'', ''p2'')] [(''b'', [''d1''])] = Inl IndexError"
proof -
  have occurs: "(''t2'', ([''b''], ''p2'')) \<in> set [(''t1'', ([''a'', ''b''], ''p1'')), (''t2'', ([''b''], ''p2''))]
      \<and> ''b'' \<in> set [''b'']"
    by simp
  have "\<forall>n doc c t. (n, (doc, c)) \<in> set [(''t1'', ([''a'', ''b''], ''p1'')), (''t2'', ([''b''], ''p2''))]
            \<and> t \<in> set doc \<longrightarrow>
          (\<exists>l. map_of [(''a'', [''t1'']), (''b'', [''t1'', ''t2''])] t = Some l \<and> l \<noteq> []
             \<and> 0 < real (length [(''t1'', ([''a'', ''b''], ''p1'')), (''t2'', ([''b''], ''p2''))])
                       / real (length l)
             \<and> log_idf (length [(''t1'', ([''a'', ''b''], ''p1'')), (''t2'', ([''b''], ''p2''))])
                   [(''b'', [''d1''])] (Some [(''a'', [''t1'']), (''b'', [''t1'', ''t2''])]) True t
                 = Inr (ln (real (length [(''t1'', ([''a'', ''b''], ''p1'')), (''t2'', ([''b''], ''p2''))])
                             / real (length l))))"
    using run_test_df_lookup_defined [OF run_test_example_sample run_test_example_tokens,
        of "[(''b'', [''d1''])]"]
    by (rule conjunct1)
  then have "\<exists>l. map_of [(''a'', [''t1'']), (''b'', [''t1'', ''t2''])] ''b'' = Some l \<and> l \<noteq> []
             \<and> 0 < real (length [(''t1'', ([''a'', ''b''], ''p1'')), (''t2'', ([''b''], ''p2''))])
                       / real (length l)
             \<and> log_idf (length [(''t1'', ([''a'', ''b''], ''p1'')), (''t2'', ([''b''], ''p2''))])
                   [(''b'', [''d1''])] (Some [(''a'', [''t1'']), (''b'', [''t1'', ''t2''])]) True ''b''
                 = Inr (ln (real (length [(''t1'', ([''a'', ''b''], ''p1'')), (''t2'', ([''b''], ''p2''))])
                             / real (length l)))"
    using occurs by blast
  then obtain l where l: "map_of [(''a'', [''t1'']), (''b'', [''t1'', ''t2''])] ''b'' = Some l"
    and lne: "l \<noteq> []"
    and idf: "log_idf (length [(''t1'', ([''a'', ''b''], ''p1'')), (''t2'', ([''b''], ''p2''))])
                   [(''b'', [''d1''])] (Some [(''a'', [''t1'']), (''b'', [''t1'', ''t2''])]) True ''b''
                 = Inr (ln (real (length [(''t1'', ([''a'', ''b''], ''p1'')), (''t2'', ([''b''], ''p2''))])
                             / real (length l)))"
    by blast
  have two: "length [(''t1'', ([''a'', ''b''], ''p1'')), (''t2'', ([''b''], ''p2''))] = 2"
    by simp
  have "log_idf 2 [(''b'', [''d1''])] (Some [(''a'', [''t1'']), (''b'', [''t1'', ''t2''])]) True ''b''
              = Inr (ln (2 / real (length l)))"
    using idf unfolding two by simp
  then have entry: "\<exists>l. map_of [(''a'', [''t1'']), (''b'', [''t1'', ''t2''])] ''b'' = Some l \<and> l \<noteq> []
          \<and> log_idf 2 [(''b'', [''d1''])] (Some [(''a'', [''t1'']), (''b'', [''t1'', ''t2''])]) True ''b''
              = Inr (ln (2 / real (length l)))"
    using l lne by blast
  have "\<exists>vs. setup_tfidf_vectors [(''t1'', ([''a'', ''b''], ''p1'')), (''t2'', ([''b''], ''p2''))]
               [(''b'', [''d1''])] (Some [(''a'', [''t1'']), (''b'', [''t1'', ''t2''])]) True = Inr vs
           \<and> run_test chars (\<lambda>p. if p = ''p1'' then Some ''ab'' else Some ''b'')
               [(''t1'', ''p1''), (''t2'', ''p2'')] [(''b'', [''d1''])]
             = (if 45 < length [(''t1'', ([''a'', ''b''], ''p1'')), (''t2'', ([''b''], ''p2''))]
                then Inr vs else Inl IndexError)"
    using run_test_df_lookup_defined [OF run_test_example_sample run_test_example_tokens,
        of "[(''b'', [''d1''])]"]
    by (rule conjunct2)
  then have "(\<exists>vs. setup_tfidf_vectors [(''t1'', ([''a'', ''b''], ''p1'')), (''t2'', ([''b''], ''p2''))]
               [(''b'', [''d1''])] (Some [(''a'', [''t1'']), (''b'', [''t1'', ''t2''])]) True = Inr vs)
           \<and> run_test chars (\<lambda>p. if p = ''p1'' then Some ''ab'' else Some ''b'')
               [(''t1'', ''p1''), (''t2'', ''p2'')] [(''b'', [''d1''])] = Inl IndexError"
    by auto
  then show ?thesis
    using run_test_example_sample run_test_example_tokens entry by blast
qed

section \<open>The training pipeline\<close>

lemma weigh_tokens_empty_vocabulary:
  "weigh_tokens [] doc N m ts tm toks fv = Inr fv"
  by (induction toks) auto

lemma setup_empty_vocabulary:
  assumes "docs \<noteq> []"
  shows "setup_tfidf_vectors docs [] ts tm = Inr (map (\<lambda>e. ([], snd (snd e))) docs)"
proof -
  have "entry_vector [] N [] ts tm = (\<lambda>e. Inr ([], snd (snd e)))" for N
    by (simp add: entry_vector_def doc_vector_def weigh_tokens_empty_vocabulary fun_eq_iff)
  then have "map (entry_vector [] N [] ts tm) docs = map Inr (map (\<lambda>e. ([], snd (snd e))) docs)"
    for N
    by simp
  then show ?thesis
    using assms by (simp add: setup_collect collect_map_Inr del: map_map)
qed

lemma sample52: "sample_texts files52 corpus52 [] = Inr dataset52"
  by code_simp

lemma tokenize52:
  "tokenize_dataset chars dataset52 = Inr (docs52, [(''a'', butlast names52), (''b'', [''gd''])])"
  by code_simp

lemma cull52_code: "cull_doc_freq [(''a'', butlast names52), (''b'', [''gd''])] 50 2 = Inr []"
  by code_simp

lemma cull52_docs:
  "cull_doc_freq [(''a'', butlast names52), (''b'', [''gd''])] 50 52 = Inr [(''a'', butlast names52)]"
  by code_simp

lemma docs52_facts:
  "docs52 \<noteq> [] \<and> length docs52 = 52 \<and> length corpus52 = 52 \<and> length (butlast names52) = 51
   \<and> map (\<lambda>e. ([]::real list, snd (snd e))) docs52 = replicate 52 ([], ''c'')"
  by code_simp

lemma run_vocabulary_bound:
  assumes "sample_texts read_file fpc [] = Inr ds"
    and "tokenize_dataset tokenize ds = Inr (docs, doc_freq)"
    and "run tokenize read_file fpc = Inr (fv, doc_freq')"
  shows "doc_freq' = filter (in_band 50 (int (length doc_freq))) doc_freq"
proof -
  have "distinct (map fst doc_freq)"
    using tokenize_dataset_Inr [OF assms(2)] by simp
  then have "cull_doc_freq doc_freq 50 (int (length doc_freq))
               = Inr (filter (in_band 50 (int (length doc_freq))) doc_freq)"
    by (rule cull_doc_freq_filter)
  then show ?thesis
    using assms by (auto simp add: run_def split: sum.splits)
qed

text \<open>
  C7. \<open>run\<close> passes \<open>len(doc_freq.keys())\<close>, the number of distinct tokens, as the upper
  bound of the cull, not the number of documents. On the corpus of 52 documents above the
  vocabulary has two tokens, so the bound is 2: the token \<open>a\<close>, which is in 51 documents,
  is culled and \<open>run\<close> returns 52 empty vectors with an empty vocabulary. With the number
  of documents, 52, as the bound the cull keeps \<open>a\<close>.
\<close>
theorem run_high_bound_is_vocabulary_size:
  "run chars files52 corpus52 = Inr (replicate 52 ([], ''c''), [])
   \<and> length corpus52 = 52
   \<and> sample_texts files52 corpus52 [] = Inr dataset52
   \<and> tokenize_dataset chars dataset52 = Inr (docs52, [(''a'', butlast names52), (''b'', [''gd''])])
   \<and> length docs52 = 52
   \<and> length (butlast names52) = 51
   \<and> cull_doc_freq [(''a'', butlast names52), (''b'', [''gd''])] 50 (int (length docs52))
       = Inr [(''a'', butlast names52)]"
proof -
  have vec: "setup_tfidf_vectors docs52 [] None False = Inr (replicate 52 ([], ''c''))"
    using docs52_facts setup_empty_vocabulary [of docs52 None False] by simp
  have "run chars files52 corpus52 = Inr (replicate 52 ([], ''c''), [])"
    using cull52_code by (simp add: run_def sample52 tokenize52 vec)
  moreover have "cull_doc_freq [(''a'', butlast names52), (''b'', [''gd''])] 50 (int (length docs52))
       = Inr [(''a'', butlast names52)]"
    using cull52_docs docs52_facts by simp
  ultimately show ?thesis
    using docs52_facts sample52 tokenize52 by blast
qed

end
